theory Spec2Isabelle
  imports Main "HOL-Library.Multiset" "HOL-Library.AList" "HOL-Library.Char_ord"
    "HOL-Library.List_Lexorder" "HOL-Library.Product_Lexorder"
begin

section \<open>Go values at the boundary of the writer\<close>

text \<open>
  A Go panic carries a value of any type. Two kinds occur in the writer: the explicit
  \<^verbatim>\<open>panic(e.Error())\<close>, whose value is a plain string, and the run-time panics of
  indexing and slicing, whose value is a \<^verbatim>\<open>runtime.Error\<close> and therefore implements
  the interface \<^verbatim>\<open>error\<close>. The string kept in \<open>RuntimeError\<close> is the message without
  the indices Go appends to it. A function that can panic returns \<open>panic_value + 'a\<close>,
  with \<open>Inl\<close> for the panic.
\<close>

datatype panic_value = PanicString string | RuntimeError string

definition index_out_of_range :: panic_value where
  "index_out_of_range = RuntimeError ''runtime error: index out of range''"

definition slice_out_of_range :: panic_value where
  "slice_out_of_range = RuntimeError ''runtime error: slice bounds out of range''"

text \<open>
  The \<^verbatim>\<open>io.Writer\<close> a table is written to, the file that \<^verbatim>\<open>os.Create\<close> opened or the
  entry of the archive. It either accepts every write it is given, or rejects every write
  with an error of the given message and takes no byte of it. A stream that starts to
  reject after some writes is not modelled: which record then meets the rejection depends
  on how the buffer below cuts the bytes into writes.
\<close>

datatype io_Writer = Accepting | Rejecting string

text \<open>
  The \<^verbatim>\<open>*csv.Writer\<close> over it, seen from the calls the writer makes.
  \<^verbatim>\<open>csv.NewWriter\<close> wraps the stream in a \<^verbatim>\<open>bufio.Writer\<close> of 4096 bytes.
  \<^verbatim>\<open>Write(record)\<close> appends the bytes of the record to the buffer and returns an error
  or nil; the buffer is handed to the stream only when the bytes no longer fit. \<^verbatim>\<open>Flush()\<close>
  hands what is buffered to the stream and returns nothing. The first error of the stream
  is kept by the \<^verbatim>\<open>bufio.Writer\<close>, which from then on fails every \<^verbatim>\<open>Write\<close> with it and
  writes no more; the writer never asks \<^verbatim>\<open>Error()\<close> for it, so an error that is met only
  in \<^verbatim>\<open>Flush\<close> is seen by nobody.

  \<open>encoder\<close> gives the bytes of a record, which is \<^verbatim>\<open>encoding/csv\<close>'s matter and a
  parameter; \<open>sink\<close> is the stream; \<open>written\<close> are the records that \<^verbatim>\<open>Write\<close> has taken;
  \<open>flushed\<close> are the records that the last \<^verbatim>\<open>Flush\<close> left in the stream (until the next
  one the stream may already hold more, since a full buffer is handed over at once);
  \<open>unflushed\<close> is the number of bytes taken since then; \<open>failure\<close> is the error kept.
  Over a stream that rejects, no byte leaves the buffer before the failure, so there
  \<open>unflushed\<close> is the fill of the buffer, and a record is refused exactly when it no longer
  fits.
\<close>

record csv_Writer =
  encoder :: "string list \<Rightarrow> string"
  sink :: io_Writer
  written :: "string list list"
  flushed :: "string list list"
  unflushed :: nat
  failure :: "string option"

definition csv_NewWriter :: "(string list \<Rightarrow> string) \<Rightarrow> io_Writer \<Rightarrow> csv_Writer" where
  "csv_NewWriter enc file =
     \<lparr>encoder = enc, sink = file, written = [], flushed = [], unflushed = 0, failure = None\<rparr>"

definition csv_Write :: "csv_Writer \<Rightarrow> string list \<Rightarrow> string option \<times> csv_Writer" where
  "csv_Write w rec =
     (let taken = w\<lparr>written := written w @ [rec],
                     unflushed := unflushed w + length (encoder w rec)\<rparr>
      in case failure w of
           Some m \<Rightarrow> (Some m, w)
         | None \<Rightarrow>
             (case sink w of
                Accepting \<Rightarrow> (None, taken)
              | Rejecting m \<Rightarrow>
                  if unflushed w + length (encoder w rec) \<le> 4096 then (None, taken)
                  else (Some m, w\<lparr>failure := Some m\<rparr>)))"

definition csv_Flush :: "csv_Writer \<Rightarrow> csv_Writer" where
  "csv_Flush w =
     (case failure w of
        Some m \<Rightarrow> w
      | None \<Rightarrow>
          (case sink w of
             Accepting \<Rightarrow> w\<lparr>flushed := written w, unflushed := 0\<rparr>
           | Rejecting m \<Rightarrow> if unflushed w = 0 then w else w\<lparr>failure := Some m\<rparr>))"

text \<open>
  The bytes of a file are the encodings of its records, one after the other, for any
  encoding of one record.
\<close>

definition csv_bytes :: "(string list \<Rightarrow> string) \<Rightarrow> string list list \<Rightarrow> string" where
  "csv_bytes enc recs = concat (map enc recs)"

section \<open>CsvWriter\<close>

text \<open>
  \<^verbatim>\<open>NewCsvWriter(file)\<close> makes the \<^verbatim>\<open>csv.Writer\<close>, so it is given the encoding here.
  The two Go maps of the struct are association lists updated with \<open>AList.update\<close> (a
  key occurs once, so the length of the list is \<^verbatim>\<open>len\<close> of the map) and read with
  \<open>map_of\<close>.
\<close>

record CsvWriter =
  writer :: csv_Writer
  headers :: "string list"
  headersMap :: "(string \<times> nat) list"
  headerUsage :: "bool list"
  headerUsageCount :: int
  lines :: "string list list"
  order :: "(string \<times> nat) list"

definition NewCsvWriter :: "(string list \<Rightarrow> string) \<Rightarrow> io_Writer \<Rightarrow> CsvWriter" where
  "NewCsvWriter enc file =
     \<lparr>writer = csv_NewWriter enc file, headers = [], headersMap = [], headerUsage = [],
      headerUsageCount = 0, lines = [], order = []\<rparr>"

text \<open>\<^verbatim>\<open>SetHeader\<close>: a fresh all-false usage vector, then one pass over the schema for
  every required name.\<close>

definition mark_required :: "string list \<Rightarrow> string \<Rightarrow> bool list \<Rightarrow> bool list" where
  "mark_required hdrs req u =
     fold (\<lambda>i u. if hdrs ! i = req then u[i := True] else u) [0..<length hdrs] u"

definition SetHeader :: "CsvWriter \<Rightarrow> string list \<Rightarrow> string list \<Rightarrow> CsvWriter" where
  "SetHeader p val required =
     p\<lparr>headerUsage := fold (mark_required val) required (replicate (length val) False),
       headers := val,
       headersMap := fold (\<lambda>i m. AList.update (val ! i) i m) [0..<length val] (headersMap p)\<rparr>"

text \<open>\<^verbatim>\<open>SetOrder\<close>: the names that are in the schema get the positions 0, 1, 2, ... in
  the order they are given.\<close>

definition SetOrder_step :: "(string \<times> nat) list \<Rightarrow> string \<Rightarrow> nat \<times> (string \<times> nat) list
    \<Rightarrow> nat \<times> (string \<times> nat) list" where
  "SetOrder_step hm name s =
     (case s of (a, m) \<Rightarrow>
        if map_of hm name \<noteq> None then (a + 1, AList.update name a m) else (a, m))"

definition SetOrder :: "CsvWriter \<Rightarrow> string list \<Rightarrow> CsvWriter" where
  "SetOrder p ord = p\<lparr>order := snd (fold (SetOrder_step (headersMap p)) ord (0, order p))\<rparr>"

text \<open>\<^verbatim>\<open>HeaderUsage\<close>: \<^verbatim>\<open>p.headerUsage[i] = true\<close> for every non-empty cell \<open>i\<close> of the
  row; the assignment panics when \<open>i\<close> is not an index of the usage vector.\<close>

fun HeaderUsage_loop :: "nat \<Rightarrow> string list \<Rightarrow> bool list \<Rightarrow> panic_value + bool list" where
  "HeaderUsage_loop i [] u = Inr u"
| "HeaderUsage_loop i (v # vs) u =
     (if length v > 0
      then (if i < length u then HeaderUsage_loop (i + 1) vs (u[i := True])
            else Inl index_out_of_range)
      else HeaderUsage_loop (i + 1) vs u)"

definition HeaderUsage :: "CsvWriter \<Rightarrow> string list \<Rightarrow> panic_value + CsvWriter" where
  "HeaderUsage p val =
     (case HeaderUsage_loop 0 val (headerUsage p) of
        Inl e \<Rightarrow> Inl e
      | Inr u \<Rightarrow> Inr (p\<lparr>headerUsage := u\<rparr>))"

definition WriteCsvLine :: "CsvWriter \<Rightarrow> string list \<Rightarrow> panic_value + CsvWriter" where
  "WriteCsvLine p val = HeaderUsage (p\<lparr>lines := lines p @ [val]\<rparr>) val"

text \<open>
  \<^verbatim>\<open>maskLine\<close>. With an order set, a slice of \<^verbatim>\<open>len(p.order)\<close> empty strings is filled
  at the position of every named column and the used columns without a position are
  appended. Without one, the cell of every unused column is cut out of the row in place:
  \<open>j\<close> counts the cells cut so far, so the cell of column \<open>i\<close> is at \<open>i - j\<close>, and
  \<^verbatim>\<open>(*val)[(i-j)+1:]\<close> panics when \<open>i - j\<close> is not below the length of the row.
\<close>

fun maskLine_order :: "(string \<times> nat) list \<Rightarrow> string list \<Rightarrow> string list \<Rightarrow> nat \<Rightarrow> bool list
    \<Rightarrow> string list \<Rightarrow> panic_value + string list" where
  "maskLine_order ord hdrs val i [] a = Inr a"
| "maskLine_order ord hdrs val i (h # hs) a =
     (if length hdrs \<le> i then Inl index_out_of_range
      else case map_of ord (hdrs ! i) of
        Some k \<Rightarrow>
          (if i < length val \<and> k < length a
           then maskLine_order ord hdrs val (i + 1) hs (a[k := val ! i])
           else Inl index_out_of_range)
      | None \<Rightarrow>
          (if h
           then (if i < length val
                 then maskLine_order ord hdrs val (i + 1) hs (a @ [val ! i])
                 else Inl index_out_of_range)
           else maskLine_order ord hdrs val (i + 1) hs a))"

fun maskLine_cut :: "nat \<Rightarrow> nat \<Rightarrow> bool list \<Rightarrow> string list \<Rightarrow> panic_value + string list" where
  "maskLine_cut i j [] val = Inr val"
| "maskLine_cut i j (h # hs) val =
     (if \<not> h
      then (if i - j < length val
            then maskLine_cut (i + 1) (j + 1) hs (take (i - j) val @ drop ((i - j) + 1) val)
            else Inl slice_out_of_range)
      else maskLine_cut (i + 1) j hs val)"

definition maskLine :: "CsvWriter \<Rightarrow> string list \<Rightarrow> panic_value + string list" where
  "maskLine p val =
     (if length (order p) > 0
      then maskLine_order (order p) (headers p) val 0 (headerUsage p)
             (replicate (length (order p)) [])
      else maskLine_cut 0 0 (headerUsage p) val)"

text \<open>The three places that write a record panic with the message of the error, a
  string.\<close>

definition WriteCsvLineRaw :: "CsvWriter \<Rightarrow> string list \<Rightarrow> panic_value + CsvWriter" where
  "WriteCsvLineRaw p val =
     (case maskLine p val of
        Inl e \<Rightarrow> Inl e
      | Inr v \<Rightarrow>
          (case csv_Write (writer p) v of
             (Some m, w) \<Rightarrow> Inl (PanicString m)
           | (None, w) \<Rightarrow> Inr (p\<lparr>writer := w\<rparr>)))"

definition WriteHeader :: "CsvWriter \<Rightarrow> panic_value + CsvWriter" where
  "WriteHeader p =
     (case maskLine p (headers p) of
        Inl e \<Rightarrow> Inl e
      | Inr headerCp \<Rightarrow>
          (case csv_Write (writer p) headerCp of
             (Some m, w) \<Rightarrow> Inl (PanicString m)
           | (None, w) \<Rightarrow> Inr (p\<lparr>writer := w\<rparr>)))"

definition FlushFile :: "CsvWriter \<Rightarrow> CsvWriter" where
  "FlushFile p = p\<lparr>writer := csv_Flush (writer p)\<rparr>"

fun write_lines :: "CsvWriter \<Rightarrow> string list list \<Rightarrow> panic_value + CsvWriter" where
  "write_lines p [] = Inr p"
| "write_lines p (v # vs) =
     (case WriteCsvLineRaw p v of Inl e \<Rightarrow> Inl e | Inr p' \<Rightarrow> write_lines p' vs)"

definition Flush :: "CsvWriter \<Rightarrow> panic_value + CsvWriter" where
  "Flush p =
     (if length (lines p) = 0
      then (case csv_Write (writer p) (headers p) of
              (Some m, w) \<Rightarrow> Inl (PanicString m)
            | (None, w) \<Rightarrow> Inr (p\<lparr>writer := csv_Flush w\<rparr>))
      else (case WriteHeader p of
              Inl e \<Rightarrow> Inl e
            | Inr p1 \<Rightarrow>
                (case write_lines p1 (lines p1) of
                   Inl e \<Rightarrow> Inl e
                 | Inr p2 \<Rightarrow> Inr ((FlushFile p2)\<lparr>lines := []\<rparr>))))"

section \<open>Sorting the buffered rows\<close>

text \<open>
  \<^verbatim>\<open>SortedLines.Less(i, j)\<close> on the rows \<open>li = Lines[i]\<close> and \<open>lj = Lines[j]\<close>. Go compares
  strings byte by byte, which is the lexicographic order of \<open>char list\<close>. The loop is
  bounded by the length of \<open>li\<close> only, so \<^verbatim>\<open>l.Lines[j][a]\<close> panics when \<open>lj\<close> is shorter
  and the rows agree up to there.
\<close>

function Less_from :: "int \<Rightarrow> string list \<Rightarrow> string list \<Rightarrow> nat \<Rightarrow> panic_value + bool" where
  "Less_from SortDepth li lj a =
     (if int a < SortDepth \<and> a < length li
      then (if a < length lj
            then (if li ! a < lj ! a then Inr True
                  else if li ! a \<noteq> lj ! a then Inr False
                  else Less_from SortDepth li lj (a + 1))
            else Inl index_out_of_range)
      else Inr False)"
  by pat_completeness auto
termination
  by (relation "measure (\<lambda>(SortDepth, li, lj, a). length li - a)") auto

declare Less_from.simps [simp del]

definition SortedLines_Less :: "int \<Rightarrow> string list \<Rightarrow> string list \<Rightarrow> panic_value + bool" where
  "SortedLines_Less SortDepth li lj = Less_from SortDepth li lj 0"

text \<open>
  \<^verbatim>\<open>sort.Sort\<close> belongs to Go's standard library and is a parameter of the model: a
  routine that is given the comparison (which may panic) and the rows, and returns the
  rows rearranged, or the panic of a comparison it made.
\<close>

type_synonym 'a sort_routine =
  "('a \<Rightarrow> 'a \<Rightarrow> panic_value + bool) \<Rightarrow> 'a list \<Rightarrow> panic_value + 'a list"

definition SortByCols :: "string list sort_routine \<Rightarrow> CsvWriter \<Rightarrow> int \<Rightarrow> panic_value + CsvWriter" where
  "SortByCols sort_Sort p depth =
     (case sort_Sort (SortedLines_Less depth) (lines p) of
        Inl e \<Rightarrow> Inl e
      | Inr ls \<Rightarrow> Inr (p\<lparr>lines := ls\<rparr>))"

text \<open>
  What \<^verbatim>\<open>sort.Sort\<close> promises: where the comparison never panics on the elements and is
  a strict weak order on them, the result is a rearrangement of the input in which no
  element is less than an earlier one. Its documentation adds that the sort is not
  guaranteed to be stable.
\<close>

definition strict_weak_order_on :: "'a set \<Rightarrow> ('a \<Rightarrow> 'a \<Rightarrow> bool) \<Rightarrow> bool" where
  "strict_weak_order_on A lt =
     ((\<forall>x\<in>A. \<not> lt x x) \<and>
      (\<forall>x\<in>A. \<forall>y\<in>A. \<forall>z\<in>A. lt x y \<longrightarrow> lt y z \<longrightarrow> lt x z) \<and>
      (\<forall>x\<in>A. \<forall>y\<in>A. \<forall>z\<in>A. \<not> lt x y \<longrightarrow> \<not> lt y z \<longrightarrow> \<not> lt x z))"

definition sort_contract :: "'a sort_routine \<Rightarrow> bool" where
  "sort_contract srt =
     (\<forall>cmp lt xs.
        (\<forall>x\<in>set xs. \<forall>y\<in>set xs. cmp x y = Inr (lt x y)) \<and> strict_weak_order_on (set xs) lt \<longrightarrow>
        (\<exists>ys. srt cmp xs = Inr ys \<and> mset ys = mset xs \<and> sorted_wrt (\<lambda>x y. \<not> lt y x) ys))"

text \<open>
  One routine that keeps the promise, written after \<^verbatim>\<open>sort.Sort\<close> as the Go standard
  library had it up to Go 1.18 for slices of at most twelve elements (the end of
  \<^verbatim>\<open>quickSort\<close>): one pass of Shell sort with gap 6,
  \<^verbatim>\<open>for i := a + 6; i < b; i++ { if data.Less(i, i-6) { data.Swap(i, i-6) } }\<close>,
  followed by \<^verbatim>\<open>insertionSort\<close>,
  \<^verbatim>\<open>for i := a + 1; i < b; i++ { for j := i; j > a && data.Less(j, j-1); j-- { data.Swap(j, j-1) } }\<close>.
  On longer lists it is still a sort, though not the one Go runs there.
\<close>

definition Swap :: "'a list \<Rightarrow> nat \<Rightarrow> nat \<Rightarrow> 'a list" where
  "Swap xs i j = xs[i := xs ! j, j := xs ! i]"

fun for_each :: "nat list \<Rightarrow> ('a list \<Rightarrow> nat \<Rightarrow> panic_value + 'a list) \<Rightarrow> 'a list
    \<Rightarrow> panic_value + 'a list" where
  "for_each [] body xs = Inr xs"
| "for_each (i # is) body xs =
     (case body xs i of Inl e \<Rightarrow> Inl e | Inr ys \<Rightarrow> for_each is body ys)"

fun insertion_inner :: "('a \<Rightarrow> 'a \<Rightarrow> panic_value + bool) \<Rightarrow> 'a list \<Rightarrow> nat
    \<Rightarrow> panic_value + 'a list" where
  "insertion_inner cmp xs 0 = Inr xs"
| "insertion_inner cmp xs (Suc j) =
     (case cmp (xs ! Suc j) (xs ! j) of
        Inl e \<Rightarrow> Inl e
      | Inr b \<Rightarrow> if b then insertion_inner cmp (Swap xs (Suc j) j) j else Inr xs)"

definition insertionSort :: "'a sort_routine" where
  "insertionSort cmp xs = for_each [1..<length xs] (insertion_inner cmp) xs"

definition shell_step :: "('a \<Rightarrow> 'a \<Rightarrow> panic_value + bool) \<Rightarrow> 'a list \<Rightarrow> nat
    \<Rightarrow> panic_value + 'a list" where
  "shell_step cmp xs i =
     (case cmp (xs ! i) (xs ! (i - 6)) of
        Inl e \<Rightarrow> Inl e
      | Inr b \<Rightarrow> Inr (if b then Swap xs i (i - 6) else xs))"

definition short_sort :: "'a sort_routine" where
  "short_sort cmp xs =
     (if length xs > 1
      then (case for_each [6..<length xs] (shell_step cmp) xs of
              Inl e \<Rightarrow> Inl e
            | Inr ys \<Rightarrow> insertionSort cmp ys)
      else Inr xs)"

section \<open>The life of one table\<close>

text \<open>
  The calls a table writer makes on its \<open>CsvWriter\<close> after \<^verbatim>\<open>SetHeader\<close>, as data, and
  a run of such calls that stops at the first panic.
\<close>

datatype csv_call =
    CallSetOrder "string list"
  | CallWriteCsvLine "string list"
  | CallWriteCsvLineRaw "string list"
  | CallHeaderUsage "string list"
  | CallSortByCols int
  | CallFlush
  | CallWriteHeader
  | CallFlushFile

fun call :: "string list sort_routine \<Rightarrow> CsvWriter \<Rightarrow> csv_call \<Rightarrow> panic_value + CsvWriter" where
  "call srt p (CallSetOrder ord) = Inr (SetOrder p ord)"
| "call srt p (CallWriteCsvLine val) = WriteCsvLine p val"
| "call srt p (CallWriteCsvLineRaw val) = WriteCsvLineRaw p val"
| "call srt p (CallHeaderUsage val) = HeaderUsage p val"
| "call srt p (CallSortByCols depth) = SortByCols srt p depth"
| "call srt p CallFlush = Flush p"
| "call srt p CallWriteHeader = WriteHeader p"
| "call srt p CallFlushFile = Inr (FlushFile p)"

fun calls :: "string list sort_routine \<Rightarrow> CsvWriter \<Rightarrow> csv_call list \<Rightarrow> panic_value + CsvWriter" where
  "calls srt p [] = Inr p"
| "calls srt p (c # cs) =
     (case call srt p c of Inl e \<Rightarrow> Inl e | Inr p' \<Rightarrow> calls srt p' cs)"

text \<open>The usage vector \<open>u'\<close> has the entries of \<open>u\<close> and every entry that is true in \<open>u\<close>
  is true in \<open>u'\<close>.\<close>

definition usage_grows :: "bool list \<Rightarrow> bool list \<Rightarrow> bool" where
  "usage_grows u u' = (length u' = length u \<and> list_all2 (\<lambda>b b'. b \<longrightarrow> b') u u')"

section \<open>Errors and the recovery of a table writer\<close>

record writeError =
  filename :: string
  msg :: string

definition writeError_Error :: "writeError \<Rightarrow> string" where
  "writeError_Error e = filename e @ '' - '' @ msg e"

text \<open>The values of type \<^verbatim>\<open>error\<close> a table writer returns: an \<^verbatim>\<open>errors.New\<close>, a
  \<^verbatim>\<open>writeError\<close>, or what \<^verbatim>\<open>os.Stat\<close>, \<^verbatim>\<open>os.Remove\<close> and \<^verbatim>\<open>os.Create\<close> return.\<close>

datatype go_error =
    ErrorString string
  | WriteError writeError
  | StatError
  | RemoveError
  | CreateError

text \<open>
  The deferred function of every table writer,
  \<^verbatim>\<open>if r := recover(); r != nil { err = writeError{name, r.(error).Error()} }\<close>.
  The type assertion \<^verbatim>\<open>r.(error)\<close> holds for a \<^verbatim>\<open>runtime.Error\<close>; for a string it
  panics anew, and that panic leaves the table writer.
\<close>

definition recovered :: "string \<Rightarrow> panic_value \<Rightarrow> panic_value + go_error" where
  "recovered name r =
     (case r of
        RuntimeError m \<Rightarrow> Inr (WriteError \<lparr>filename = name, msg = m\<rparr>)
      | PanicString s \<Rightarrow>
          Inl (RuntimeError ''interface conversion: string is not error: missing method Error''))"

section \<open>The destination\<close>

text \<open>
  The path a feed is written to. \<open>stat\<close> is what \<^verbatim>\<open>os.Stat(path)\<close> finds (\<open>None\<close>: an
  error), \<open>entries\<close> the files of the directory, or the entries of the archive, by name
  with the records each holds, \<open>denied\<close> the names \<^verbatim>\<open>os.Create\<close> and \<^verbatim>\<open>os.Remove\<close>
  refuse in the directory, \<open>locked\<close> whether \<^verbatim>\<open>os.Create(path)\<close> of the archive is
  refused, and \<open>stream\<close> how the file opened next takes its writes.
\<close>

datatype file_mode = Directory | Regular

record destination =
  stat :: "file_mode option"
  entries :: "(string \<times> string list list) list"
  denied :: "string list"
  locked :: bool
  stream :: io_Writer

datatype compressor = DefaultCompression | NoCompression | FlateLevel int

text \<open>\<open>zipFile\<close> is \<open>None\<close> for nil, and else the compressor registered for the archive
  (\<open>None\<close>: none registered). The scratch buffer \<^verbatim>\<open>buff\<close> is left out.
  \<^verbatim>\<open>curFileHandle\<close> is never assigned by the writer.\<close>

record Writer =
  curFileHandle :: "string option"
  zipFile :: "compressor option option"
  ZipCompressionLevel :: int
  Sorted :: bool
  ExplicitCalendar :: bool
  KeepColOrder :: bool

definition delExistingFile :: "destination \<Rightarrow> string \<Rightarrow> go_error option \<times> destination" where
  "delExistingFile dest name =
     (case stat dest of
        None \<Rightarrow> (Some StatError, dest)
      | Some fileInfo \<Rightarrow>
          if fileInfo = Directory
          then (if map_of (entries dest) name \<noteq> None
                then (if name \<in> set (denied dest) then (Some RemoveError, dest)
                      else (None, dest\<lparr>entries := AList.delete name (entries dest)\<rparr>))
                else (None, dest))
          else (None, dest))"

definition registered :: "int \<Rightarrow> compressor option" where
  "registered level =
     (if level = 0 then Some DefaultCompression
      else if level = - 1 then Some NoCompression
      else if level > 0 then Some (FlateLevel level)
      else None)"

text \<open>In \<^verbatim>\<open>getFileForWriting\<close>, \<^verbatim>\<open>zipFile.Create(name)\<close> of an open archive is taken to
  succeed; \<^verbatim>\<open>os.Create\<close> truncates, so a new file or entry holds no record.\<close>

definition getFileForWriting :: "Writer \<Rightarrow> destination \<Rightarrow> string
    \<Rightarrow> (go_error + io_Writer) \<times> Writer \<times> destination" where
  "getFileForWriting w dest name =
     (case stat dest of
        None \<Rightarrow> (Inl StatError, w, dest)
      | Some fileInfo \<Rightarrow>
          if fileInfo = Directory
          then (if name \<in> set (denied dest) then (Inl CreateError, w, dest)
                else (Inr (stream dest), w,
                      dest\<lparr>entries := AList.update name [] (entries dest)\<rparr>))
          else (if zipFile w = None
                then (if locked dest then (Inl CreateError, w, dest)
                      else (Inr (stream dest),
                            w\<lparr>zipFile := Some (registered (ZipCompressionLevel w))\<rparr>,
                            dest\<lparr>entries := AList.update name [] []\<rparr>))
                else (Inr (stream dest), w,
                      dest\<lparr>entries := AList.update name [] (entries dest)\<rparr>)))"

text \<open>
  The end of a table writer: the panic of the body goes through the deferred function;
  a body that returned leaves the flushed records in the file and the table writer
  returns \<^verbatim>\<open>e\<close>, which is nil there. What a failed table leaves in its file is not
  modelled: the file stays as \<^verbatim>\<open>getFileForWriting\<close> created it.
\<close>

definition finish_table :: "string \<Rightarrow> Writer \<Rightarrow> destination \<Rightarrow> panic_value + CsvWriter
    \<Rightarrow> panic_value + go_error option \<times> Writer \<times> destination" where
  "finish_table name w dest body =
     (case body of
        Inl r \<Rightarrow>
          (case recovered name r of
             Inl r' \<Rightarrow> Inl r'
           | Inr err \<Rightarrow> Inr (Some err, w, dest))
      | Inr csvwriter \<Rightarrow>
          Inr (None, w,
               dest\<lparr>entries := AList.update name (flushed (writer csvwriter)) (entries dest)\<rparr>))"

section \<open>The feed\<close>

text \<open>
  Of the feed of \<^verbatim>\<open>gtfsparser\<close>, what the table writers read. A Go map that is ranged
  over is the association list of one iteration; a pointer that is tested for nil is an
  option, and one that is followed without a test (the route, the service and the headsign
  of a trip, the stop and the headsign of a stop time, the two stops of a pathway) is
  taken to be set, as the parser leaves it; of the entity a pointer leads to, the record
  has what the writer reads there, mostly its id; a pointer or a struct used as the key of
  a map is a number; a method without arguments is the value it returns;
  \<^verbatim>\<open>Url.String()\<close>, \<^verbatim>\<open>Email.Address\<close>, \<^verbatim>\<open>GetTzString()\<close> and \<^verbatim>\<open>GetLangString()\<close>
  are the strings they return. The attributions that agencies, routes and trips carry, and
  that their writers append to \<^verbatim>\<open>attrs\<close>, are left out of these writers;
  \<^verbatim>\<open>writeAttributions\<close> is given \<^verbatim>\<open>attrs\<close> as in the source.
\<close>

record Agency =
  Agency_Id :: string
  Agency_Name :: string
  Agency_Url :: "string option"
  Agency_Timezone :: string
  Agency_Lang :: string
  Agency_Phone :: string
  Agency_Fare_url :: "string option"
  Agency_Email :: "string option"

text \<open>A \<^verbatim>\<open>gtfs.Date\<close> by what the writer reads of it: \<^verbatim>\<open>IsEmpty()\<close>, \<^verbatim>\<open>Year()\<close>,
  \<^verbatim>\<open>Month()\<close> and \<^verbatim>\<open>Day()\<close>; a \<^verbatim>\<open>gtfs.Time\<close> likewise.\<close>

record gtfs_Date =
  IsEmpty :: bool
  Year :: int
  Month :: int
  Day :: int

record gtfs_Time =
  Time_Empty :: bool
  Hour :: int
  Minute :: int
  Second :: int

record FeedInfo =
  FeedInfo_ptr :: nat
  Publisher_name :: string
  Publisher_url :: "string option"
  FeedInfo_Lang :: string
  Start_date :: gtfs_Date
  End_date :: gtfs_Date
  Version :: string
  Contact_email :: "string option"
  Contact_url :: "string option"

text \<open>Coordinates, distances and measures are \<^verbatim>\<open>float32\<close> values. The writer hands them
  to \<^verbatim>\<open>formatFloat\<close>, and for a pathway asks \<^verbatim>\<open>math.IsNaN\<close> and compares with 0; these
  three are parameters of the tables that need them.\<close>

typedecl float32

record Stop =
  Stop_Name :: string
  Stop_Parent_station :: "string option"
  Stop_Code :: string
  Stop_Zone_id :: string
  Stop_Id :: string
  Stop_Desc :: string
  Stop_HasLatLon :: bool
  Stop_Lat :: float32
  Stop_Lon :: float32
  Stop_Url :: "string option"
  Stop_Location_type :: int
  Stop_Timezone :: string
  Stop_Wheelchair_boarding :: int
  Stop_Level :: "string option"
  Stop_Platform_code :: string

record ShapePoint =
  Point_Lat :: float32
  Point_Lon :: float32
  Point_Sequence :: int
  Point_HasDistanceTraveled :: bool
  Point_Dist_traveled :: float32

record Shape =
  Shape_Id :: string
  Shape_Points :: "ShapePoint list"

record Route =
  Route_Id :: string
  Route_Agency :: "string option"
  Route_Short_name :: string
  Route_Long_name :: string
  Route_Desc :: string
  Route_Type :: int
  Route_Url :: "string option"
  Route_Color :: string
  Route_Text_color :: string
  Route_Sort_order :: int
  Route_Continuous_pickup :: int
  Route_Continuous_drop_off :: int

text \<open>\<open>Daymap v i\<close> is \<^verbatim>\<open>v.Daymap(i)\<close>, and \<open>Exceptions\<close> the map \<^verbatim>\<open>v.Exceptions()\<close>.\<close>

record Service =
  Service_Id :: string
  RawDaymap :: nat
  Service_IsEmpty :: bool
  Daymap :: "nat \<Rightarrow> bool"
  Service_Start_date :: gtfs_Date
  Service_End_date :: gtfs_Date
  Exceptions :: "(gtfs_Date \<times> bool) list"
  GetFirstDefinedDate :: gtfs_Date
  GetLastDefinedDate :: gtfs_Date

record StopTime =
  StopTime_Stop :: string
  StopTime_Sequence :: int
  StopTime_Headsign :: string
  StopTime_Arrival_time :: gtfs_Time
  StopTime_Departure_time :: gtfs_Time
  StopTime_Pickup_type :: int
  StopTime_Drop_off_type :: int
  StopTime_Continuous_pickup :: int
  StopTime_Continuous_drop_off :: int
  StopTime_HasDistanceTraveled :: bool
  StopTime_Shape_dist_traveled :: float32
  StopTime_Timepoint :: bool

record Frequency =
  Frequency_ptr :: nat
  Frequency_Exact_times :: bool
  Frequency_Start_time :: gtfs_Time
  Frequency_End_time :: gtfs_Time
  Frequency_Headway_secs :: int

record Trip =
  Trip_Id :: string
  Trip_Route :: Route
  Trip_Service :: Service
  Trip_Headsign :: string
  Trip_Short_name :: "string option"
  Trip_Direction_id :: int
  Trip_Block_id :: "string option"
  Trip_Shape :: "string option"
  Trip_Wheelchair_accessible :: int
  Trip_Bikes_allowed :: int
  Trip_StopTimes :: "StopTime list"
  Trip_Frequencies :: "Frequency list option"

record FareAttributeRule =
  Rule_ptr :: nat
  Rule_Route :: "string option"
  Rule_Origin_id :: string
  Rule_Destination_id :: string
  Rule_Contains_id :: string

record FareAttribute =
  Fare_Id :: string
  Fare_Price :: string
  Fare_Currency_type :: string
  Fare_Payment_method :: int
  Fare_Transfers :: int
  Fare_Transfer_duration :: int
  Fare_Agency :: "string option"
  Fare_Rules :: "FareAttributeRule list"

text \<open>One entry of the map \<^verbatim>\<open>feed.Transfers\<close>: \<open>Transfer_key\<close> stands for the key struct
  \<^verbatim>\<open>tk\<close>, the six options are the ids behind its pointers, the last two fields are the
  value \<^verbatim>\<open>tv\<close>.\<close>

record Transfer =
  Transfer_key :: nat
  Transfer_From_stop :: "string option"
  Transfer_To_stop :: "string option"
  Transfer_From_route :: "string option"
  Transfer_To_route :: "string option"
  Transfer_From_trip :: "string option"
  Transfer_To_trip :: "string option"
  Transfer_type :: int
  Min_transfer_time :: int

record Level =
  Level_Id :: string
  Level_Index :: float32
  Level_Name :: string

record Pathway =
  Pathway_Id :: string
  Pathway_From_stop :: string
  Pathway_To_stop :: string
  Pathway_Mode :: int
  Pathway_Is_bidirectional :: bool
  Pathway_Length :: float32
  Pathway_Traversal_time :: int
  Pathway_Stair_count :: int
  Pathway_Max_slope :: float32
  Pathway_Min_width :: float32
  Pathway_Signposted_as :: string
  Pathway_Reversed_signposted_as :: string

record Attribution =
  Attribution_ptr :: nat
  Attribution_Id :: string
  Attribution_Organization_name :: string
  Attribution_Is_producer :: bool
  Attribution_Is_operator :: bool
  Attribution_Is_authority :: bool
  Attribution_Url :: "string option"
  Attribution_Email :: "string option"
  Attribution_Phone :: string

record EntAttr =
  EntAttr_attr :: Attribution
  EntAttr_route :: "string option"
  EntAttr_agency :: "string option"
  EntAttr_trip :: "string option"

record ColOrders =
  ColOrders_Agencies :: "string list"
  ColOrders_FeedInfos :: "string list"
  ColOrders_Stops :: "string list"
  ColOrders_Shapes :: "string list"
  ColOrders_Routes :: "string list"
  ColOrders_Calendar :: "string list"
  ColOrders_CalendarDates :: "string list"
  ColOrders_Trips :: "string list"
  ColOrders_StopTimes :: "string list"
  ColOrders_FareAttributes :: "string list"
  ColOrders_FareAttributeRules :: "string list"
  ColOrders_Frequencies :: "string list"
  ColOrders_Transfers :: "string list"
  ColOrders_Levels :: "string list"
  ColOrders_Pathways :: "string list"
  ColOrders_Attributions :: "string list"

record Feed =
  Agencies :: "Agency list"
  AgenciesAddFlds :: "(string \<times> (string \<times> string) list) list"
  FeedInfos :: "FeedInfo list"
  FeedInfosAddFlds :: "(string \<times> (nat \<times> string) list) list"
  Stops :: "Stop list"
  StopsAddFlds :: "(string \<times> (string \<times> string) list) list"
  Shapes :: "Shape list"
  ShapesAddFlds :: "(string \<times> (string \<times> (int \<times> string) list) list) list"
  Routes :: "Route list"
  RoutesAddFlds :: "(string \<times> (string \<times> string) list) list"
  Services :: "Service list"
  Trips :: "Trip list"
  TripsAddFlds :: "(string \<times> (string \<times> string) list) list"
  StopTimesAddFlds :: "(string \<times> (string \<times> (int \<times> string) list) list) list"
  FareAttributes :: "FareAttribute list"
  FareAttributesAddFlds :: "(string \<times> (string \<times> string) list) list"
  FareRulesAddFlds :: "(string \<times> (string \<times> (nat \<times> string) list) list) list"
  FrequenciesAddFlds :: "(string \<times> (string \<times> (nat \<times> string) list) list) list"
  Transfers :: "Transfer list"
  TransfersAddFlds :: "(string \<times> (nat \<times> string) list) list"
  Levels :: "Level list"
  LevelsAddFlds :: "(string \<times> (string \<times> string) list) list"
  Pathways :: "Pathway list"
  PathwaysAddFlds :: "(string \<times> (string \<times> string) list) list"
  Attributions :: "Attribution list"
  AttributionsAddFlds :: "(string \<times> (nat \<times> string) list) list"
  ColOrders :: ColOrders

section \<open>Cells\<close>

text \<open>\<^verbatim>\<open>strings.Replace(s, old, new, -1)\<close> for an \<open>old\<close> of one byte, as every call of the
  writer has it: each occurrence of the byte is replaced.\<close>

fun strings_Replace :: "string \<Rightarrow> char \<Rightarrow> string \<Rightarrow> string" where
  "strings_Replace [] old new = []"
| "strings_Replace (c # s) old new =
     (if c = old then new @ strings_Replace s old new else c # strings_Replace s old new)"

definition newline :: char where
  "newline = CHR 0x0A"

text \<open>\<^verbatim>\<open>strconv.FormatInt(i, 10)\<close>.\<close>

function FormatNat :: "nat \<Rightarrow> string" where
  "FormatNat n =
     (if n < 10 then [''0123456789'' ! n]
      else FormatNat (n div 10) @ [''0123456789'' ! (n mod 10)])"
  by pat_completeness auto
termination
  by (relation "measure id") auto

declare FormatNat.simps [simp del]

definition FormatInt :: "int \<Rightarrow> string" where
  "FormatInt i = (if i < 0 then CHR ''-'' # FormatNat (nat (- i)) else FormatNat (nat i))"

definition fmtIntPadded :: "int \<Rightarrow> string" where
  "fmtIntPadded val = (if val < 10 then ''0'' else []) @ FormatInt val"

definition dateToString :: "gtfs_Date \<Rightarrow> string" where
  "dateToString date =
     (if IsEmpty date then []
      else FormatInt (Year date) @ fmtIntPadded (Month date) @ fmtIntPadded (Day date))"

definition posIntToString :: "int \<Rightarrow> string" where
  "posIntToString i = (if i < 0 then [] else FormatInt i)"

definition string_or_empty :: "string option \<Rightarrow> string" where
  "string_or_empty x = (case x of None \<Rightarrow> [] | Some s \<Rightarrow> s)"

text \<open>The loop that appends the extension cells of a row:
  \<^verbatim>\<open>if vald, ok := flds[name][key]; ok { row = append(row, vald) } else { row = append(row, "") }\<close>
  for every name of \<^verbatim>\<open>addFieldsOrder\<close>.\<close>

definition addFlds :: "(string \<times> ('k \<times> string) list) list \<Rightarrow> string list \<Rightarrow> 'k \<Rightarrow> string list" where
  "addFlds flds addFieldsOrder key =
     map (\<lambda>name.
            case map_of flds name of
              None \<Rightarrow> []
            | Some m \<Rightarrow> (case map_of m key of Some vald \<Rightarrow> vald | None \<Rightarrow> []))
       addFieldsOrder"

fun buffer_rows :: "CsvWriter \<Rightarrow> string list list \<Rightarrow> panic_value + CsvWriter" where
  "buffer_rows p [] = Inr p"
| "buffer_rows p (row # rows) =
     (case WriteCsvLine p row of Inl e \<Rightarrow> Inl e | Inr p' \<Rightarrow> buffer_rows p' rows)"

definition posNegIntToString :: "int \<Rightarrow> string" where
  "posNegIntToString i = (if i = 0 then [] else FormatInt i)"

definition boolToGtfsBool :: "bool \<Rightarrow> bool \<Rightarrow> string" where
  "boolToGtfsBool v full = (if v then ''1'' else if full then ''0'' else [])"

definition timeToString :: "gtfs_Time \<Rightarrow> string" where
  "timeToString t =
     fmtIntPadded (Hour t) @ '':'' @ fmtIntPadded (Minute t) @ '':'' @ fmtIntPadded (Second t)"

text \<open>The same loop over a map with two keys, \<^verbatim>\<open>flds[name][key][sub]\<close>: a missing entry
  at either key gives the empty string.\<close>

definition addFlds2 :: "(string \<times> ('k \<times> ('s \<times> string) list) list) list \<Rightarrow> string list \<Rightarrow> 'k \<Rightarrow> 's
    \<Rightarrow> string list" where
  "addFlds2 flds addFieldsOrder key sub =
     map (\<lambda>name.
            case map_of flds name of
              None \<Rightarrow> []
            | Some m \<Rightarrow>
                (case map_of m key of
                   None \<Rightarrow> []
                 | Some m' \<Rightarrow> (case map_of m' sub of Some vald \<Rightarrow> vald | None \<Rightarrow> [])))
       addFieldsOrder"

section \<open>Table writers\<close>

text \<open>
  Every table writer opens its file, installs the deferred function and runs its body.
  The body, from \<^verbatim>\<open>NewCsvWriter\<close> to the last flush, is a function of its own here
  (\<open>agencies_table\<close>, ...), and \<open>finish_table\<close> is what the deferred function and the
  \<^verbatim>\<open>return e\<close> make of it. \<^verbatim>\<open>sort.Sort\<close>, the encoding of a record and
  \<^verbatim>\<open>formatFloat\<close> are parameters.
\<close>

subsection \<open>agency.txt\<close>

definition agency_header :: "string list" where
  "agency_header =
     [''agency_id'', ''agency_name'', ''agency_url'', ''agency_timezone'', ''agency_lang'',
      ''agency_phone'', ''agency_fare_url'', ''agency_email'']"

definition agency_row :: "Feed \<Rightarrow> string list \<Rightarrow> Agency \<Rightarrow> string list" where
  "agency_row feed addFieldsOrder v =
     (let fareurl = string_or_empty (Agency_Fare_url v);
          url = string_or_empty (Agency_Url v);
          email = string_or_empty (Agency_Email v)
      in [Agency_Id v, strings_Replace (Agency_Name v) newline '' '', url, Agency_Timezone v,
          Agency_Lang v, Agency_Phone v, fareurl, email]
         @ addFlds (AgenciesAddFlds feed) addFieldsOrder (Agency_Id v))"

definition agencies_table :: "string list sort_routine \<Rightarrow> (string list \<Rightarrow> string) \<Rightarrow> Writer
    \<Rightarrow> io_Writer \<Rightarrow> Feed \<Rightarrow> panic_value + CsvWriter" where
  "agencies_table sort_Sort enc w file feed =
     (let addFieldsOrder = map fst (AgenciesAddFlds feed);
          header = agency_header @ addFieldsOrder;
          csvwriter = SetHeader (NewCsvWriter enc file) header
                        [''agency_name'', ''agency_url'', ''agency_timezone''];
          csvwriter = (if KeepColOrder w
                       then SetOrder csvwriter (ColOrders_Agencies (ColOrders feed))
                       else csvwriter)
      in case buffer_rows csvwriter (map (agency_row feed addFieldsOrder) (Agencies feed)) of
           Inl r \<Rightarrow> Inl r
         | Inr csvwriter \<Rightarrow>
             (case (if Sorted w then SortByCols sort_Sort csvwriter 1 else Inr csvwriter) of
                Inl r \<Rightarrow> Inl r
              | Inr csvwriter \<Rightarrow> Flush csvwriter))"

definition writeAgencies :: "string list sort_routine \<Rightarrow> (string list \<Rightarrow> string) \<Rightarrow> Writer
    \<Rightarrow> destination \<Rightarrow> Feed \<Rightarrow> panic_value + go_error option \<times> Writer \<times> destination" where
  "writeAgencies sort_Sort enc w dest feed =
     (case getFileForWriting w dest ''agency.txt'' of
        (Inl e, w', dest') \<Rightarrow>
          Inr (Some (ErrorString ''Could not open required file agency.txt for writing''),
               w', dest')
      | (Inr file, w', dest') \<Rightarrow>
          finish_table ''agency.txt'' w' dest' (agencies_table sort_Sort enc w' file feed))"

subsection \<open>feed_info.txt\<close>

definition feedinfo_header :: "string list" where
  "feedinfo_header =
     [''feed_publisher_name'', ''feed_publisher_url'', ''feed_lang'', ''feed_start_date'',
      ''feed_end_date'', ''feed_version'', ''feed_contact_email'', ''feed_contact_url'']"

definition feedinfo_row :: "Feed \<Rightarrow> string list \<Rightarrow> FeedInfo \<Rightarrow> string list" where
  "feedinfo_row feed addFieldsOrder v =
     (let puburl = string_or_empty (Publisher_url v);
          contacturl = string_or_empty (Contact_url v);
          contactemail = string_or_empty (Contact_email v)
      in [strings_Replace (Publisher_name v) newline '' '', puburl, FeedInfo_Lang v,
          dateToString (Start_date v), dateToString (End_date v),
          strings_Replace (Version v) newline '' '', contactemail, contacturl]
         @ addFlds (FeedInfosAddFlds feed) addFieldsOrder (FeedInfo_ptr v))"

definition feedinfos_table :: "(string list \<Rightarrow> string) \<Rightarrow> Writer \<Rightarrow> io_Writer \<Rightarrow> Feed
    \<Rightarrow> panic_value + CsvWriter" where
  "feedinfos_table enc w file feed =
     (let addFieldsOrder = map fst (FeedInfosAddFlds feed);
          header = feedinfo_header @ addFieldsOrder;
          csvwriter = SetHeader (NewCsvWriter enc file) header
                        [''feed_publisher_name'', ''feed_publisher_url'', ''feed_lang''];
          csvwriter = (if KeepColOrder w
                       then SetOrder csvwriter (ColOrders_FeedInfos (ColOrders feed))
                       else csvwriter)
      in case buffer_rows csvwriter (map (feedinfo_row feed addFieldsOrder) (FeedInfos feed)) of
           Inl r \<Rightarrow> Inl r
         | Inr csvwriter \<Rightarrow> Flush csvwriter)"

definition writeFeedInfos :: "(string list \<Rightarrow> string) \<Rightarrow> Writer \<Rightarrow> destination \<Rightarrow> Feed
    \<Rightarrow> panic_value + go_error option \<times> Writer \<times> destination" where
  "writeFeedInfos enc w dest feed =
     (if length (FeedInfos feed) = 0
      then (case delExistingFile dest ''feed_info.txt'' of (err, dest') \<Rightarrow> Inr (err, w, dest'))
      else
        (case getFileForWriting w dest ''feed_info.txt'' of
           (Inl e, w', dest') \<Rightarrow>
             Inr (Some (ErrorString ''Could not open required file feed_info.txt for writing''),
                  w', dest')
         | (Inr file, w', dest') \<Rightarrow>
             finish_table ''feed_info.txt'' w' dest' (feedinfos_table enc w' file feed)))"

subsection \<open>stops.txt\<close>

definition stops_header :: "string list" where
  "stops_header =
     [''stop_name'', ''parent_station'', ''stop_code'', ''zone_id'', ''stop_id'', ''stop_desc'',
      ''stop_lat'', ''stop_lon'', ''stop_url'', ''location_type'', ''stop_timezone'',
      ''wheelchair_boarding'', ''level_id'', ''platform_code'']"

definition stop_row :: "(float32 \<Rightarrow> string) \<Rightarrow> Feed \<Rightarrow> string list \<Rightarrow> Stop \<Rightarrow> string list" where
  "stop_row formatFloat feed addFieldsOrder v =
     (let locType = (if Stop_Location_type v = 0 then - 1 else Stop_Location_type v);
          wb = (if Stop_Wheelchair_boarding v = 0 then - 1 else Stop_Wheelchair_boarding v);
          parentStID = string_or_empty (Stop_Parent_station v);
          url = string_or_empty (Stop_Url v);
          levelId = string_or_empty (Stop_Level v)
      in (if Stop_HasLatLon v
          then [strings_Replace (Stop_Name v) newline '' '', parentStID, Stop_Code v,
                Stop_Zone_id v, Stop_Id v, strings_Replace (Stop_Desc v) newline '' '',
                formatFloat (Stop_Lat v), formatFloat (Stop_Lon v), url, posIntToString locType,
                Stop_Timezone v, posIntToString wb, levelId, Stop_Platform_code v]
          else [strings_Replace (Stop_Name v) newline '' '', parentStID, Stop_Code v,
                Stop_Zone_id v, Stop_Id v, strings_Replace (Stop_Desc v) newline '' '',
                [], [], url, posIntToString locType,
                Stop_Timezone v, posIntToString wb, levelId, Stop_Platform_code v])
         @ addFlds (StopsAddFlds feed) addFieldsOrder (Stop_Id v))"

definition stops_table :: "string list sort_routine \<Rightarrow> (string list \<Rightarrow> string)
    \<Rightarrow> (float32 \<Rightarrow> string) \<Rightarrow> Writer \<Rightarrow> io_Writer \<Rightarrow> Feed \<Rightarrow> panic_value + CsvWriter" where
  "stops_table sort_Sort enc formatFloat w file feed =
     (let addFieldsOrder = map fst (StopsAddFlds feed);
          header = stops_header @ addFieldsOrder;
          csvwriter = SetHeader (NewCsvWriter enc file) header
                        [''stop_name'', ''stop_id'', ''stop_lat'', ''stop_lon''];
          csvwriter = (if KeepColOrder w
                       then SetOrder csvwriter (ColOrders_Stops (ColOrders feed))
                       else csvwriter)
      in case buffer_rows csvwriter
                (map (stop_row formatFloat feed addFieldsOrder) (Stops feed)) of
           Inl r \<Rightarrow> Inl r
         | Inr csvwriter \<Rightarrow>
             (case (if Sorted w then SortByCols sort_Sort csvwriter 12 else Inr csvwriter) of
                Inl r \<Rightarrow> Inl r
              | Inr csvwriter \<Rightarrow> Flush csvwriter))"

definition writeStops :: "string list sort_routine \<Rightarrow> (string list \<Rightarrow> string)
    \<Rightarrow> (float32 \<Rightarrow> string) \<Rightarrow> Writer \<Rightarrow> destination \<Rightarrow> Feed
    \<Rightarrow> panic_value + go_error option \<times> Writer \<times> destination" where
  "writeStops sort_Sort enc formatFloat w dest feed =
     (case getFileForWriting w dest ''stops.txt'' of
        (Inl e, w', dest') \<Rightarrow>
          Inr (Some (ErrorString ''Could not open required file stops.txt for writing''),
               w', dest')
      | (Inr file, w', dest') \<Rightarrow>
          finish_table ''stops.txt'' w' dest'
            (stops_table sort_Sort enc formatFloat w' file feed))"

subsection \<open>shapes.txt\<close>

text \<open>
  shapes.txt is streamed. \<^verbatim>\<open>shapePointLine\<close> fills the first five cells of the one row
  slice that is used for every point; the first pass sets the extension cells to
  \<^verbatim>\<open>"-"\<close> and only records the usage, the second pass sets them to their values and
  writes the row. Each pass sets all cells of the slice before it is read, so what
  \<^verbatim>\<open>maskLine\<close> leaves in it does not show, and the row of a point is a fresh list here.
\<close>

definition shapes_header :: "string list" where
  "shapes_header =
     [''shape_id'', ''shape_pt_lat'', ''shape_pt_lon'', ''shape_pt_sequence'',
      ''shape_dist_traveled'']"

definition shapePointLine :: "(float32 \<Rightarrow> string) \<Rightarrow> Shape \<Rightarrow> ShapePoint \<Rightarrow> string list" where
  "shapePointLine formatFloat v vp =
     (let distTrav = (if Point_HasDistanceTraveled vp then formatFloat (Point_Dist_traveled vp)
                      else [])
      in [Shape_Id v, formatFloat (Point_Lat vp), formatFloat (Point_Lon vp),
          posIntToString (Point_Sequence vp), distTrav])"

definition shape_probe_row :: "(float32 \<Rightarrow> string) \<Rightarrow> Feed \<Rightarrow> Shape \<Rightarrow> ShapePoint \<Rightarrow> string list" where
  "shape_probe_row formatFloat feed v vp =
     shapePointLine formatFloat v vp @ replicate (length (ShapesAddFlds feed)) ''-''"

definition shape_row :: "(float32 \<Rightarrow> string) \<Rightarrow> Feed \<Rightarrow> string list \<Rightarrow> Shape \<Rightarrow> ShapePoint
    \<Rightarrow> string list" where
  "shape_row formatFloat feed addFieldsOrder v vp =
     shapePointLine formatFloat v vp @
     addFlds2 (ShapesAddFlds feed) addFieldsOrder (Shape_Id v) (Point_Sequence vp)"

definition shapeLines_Less :: "Shape \<Rightarrow> Shape \<Rightarrow> panic_value + bool" where
  "shapeLines_Less a b = Inr (Shape_Id a < Shape_Id b)"

fun probe_rows :: "CsvWriter \<Rightarrow> string list list \<Rightarrow> panic_value + CsvWriter" where
  "probe_rows p [] = Inr p"
| "probe_rows p (row # rows) =
     (case HeaderUsage p row of Inl e \<Rightarrow> Inl e | Inr p' \<Rightarrow> probe_rows p' rows)"

definition shapes_table :: "Shape sort_routine \<Rightarrow> (string list \<Rightarrow> string) \<Rightarrow> (float32 \<Rightarrow> string)
    \<Rightarrow> Writer \<Rightarrow> io_Writer \<Rightarrow> Feed \<Rightarrow> panic_value + CsvWriter" where
  "shapes_table sort_Sort enc formatFloat w file feed =
     (let addFieldsOrder = map fst (ShapesAddFlds feed);
          header = shapes_header @ addFieldsOrder;
          csvwriter = SetHeader (NewCsvWriter enc file) header
                        [''shape_id'', ''shape_pt_lat'', ''shape_pt_lon'', ''shape_pt_sequence''];
          csvwriter = (if KeepColOrder w
                       then SetOrder csvwriter (ColOrders_Shapes (ColOrders feed))
                       else csvwriter)
      in case probe_rows csvwriter
                (concat (map (\<lambda>v. map (shape_probe_row formatFloat feed v) (Shape_Points v))
                           (Shapes feed))) of
           Inl r \<Rightarrow> Inl r
         | Inr csvwriter \<Rightarrow>
             (case (if Sorted w then sort_Sort shapeLines_Less (Shapes feed)
                    else Inr (Shapes feed)) of
                Inl r \<Rightarrow> Inl r
              | Inr shapeLines \<Rightarrow>
                  (case WriteHeader csvwriter of
                     Inl r \<Rightarrow> Inl r
                   | Inr csvwriter \<Rightarrow>
                       (case write_lines csvwriter
                               (concat (map (\<lambda>v. map (shape_row formatFloat feed addFieldsOrder v)
                                                  (Shape_Points v)) shapeLines)) of
                          Inl r \<Rightarrow> Inl r
                        | Inr csvwriter \<Rightarrow> Inr (FlushFile csvwriter)))))"

definition writeShapes :: "Shape sort_routine \<Rightarrow> (string list \<Rightarrow> string) \<Rightarrow> (float32 \<Rightarrow> string)
    \<Rightarrow> Writer \<Rightarrow> destination \<Rightarrow> Feed
    \<Rightarrow> panic_value + go_error option \<times> Writer \<times> destination" where
  "writeShapes sort_Sort enc formatFloat w dest feed =
     (if length (Shapes feed) = 0
      then (case delExistingFile dest ''shapes.txt'' of (err, dest') \<Rightarrow> Inr (err, w, dest'))
      else
        (case getFileForWriting w dest ''shapes.txt'' of
           (Inl e, w', dest') \<Rightarrow>
             Inr (Some (ErrorString ''Could not open required file shapes.txt for writing''),
                  w', dest')
         | (Inr file, w', dest') \<Rightarrow>
             finish_table ''shapes.txt'' w' dest'
               (shapes_table sort_Sort enc formatFloat w' file feed)))"

subsection \<open>routes.txt\<close>

definition routes_header :: "string list" where
  "routes_header =
     [''route_long_name'', ''route_short_name'', ''agency_id'', ''route_desc'', ''route_type'',
      ''route_id'', ''route_url'', ''route_color'', ''route_text_color'', ''route_sort_order'',
      ''continuous_pickup'', ''continuous_drop_off'']"

definition route_row :: "Feed \<Rightarrow> string list \<Rightarrow> Route \<Rightarrow> string list" where
  "route_row feed addFieldsOrder r =
     (let agency = string_or_empty (Route_Agency r);
          color = (if Route_Color r = ''FFFFFF'' then [] else Route_Color r);
          textColor = (if Route_Text_color r = ''000000'' then [] else Route_Text_color r);
          url = string_or_empty (Route_Url r);
          contPickup = (if Route_Continuous_pickup r = 1 then - 1
                        else Route_Continuous_pickup r);
          contDropOff = (if Route_Continuous_drop_off r = 1 then - 1
                         else Route_Continuous_drop_off r)
      in [strings_Replace (Route_Long_name r) newline '' '',
          strings_Replace (Route_Short_name r) newline '' '', agency,
          strings_Replace (Route_Desc r) newline '' '', posIntToString (Route_Type r),
          Route_Id r, url, color, textColor, posIntToString (Route_Sort_order r),
          posIntToString contPickup, posIntToString contDropOff]
         @ addFlds (RoutesAddFlds feed) addFieldsOrder (Route_Id r))"

definition routes_table :: "string list sort_routine \<Rightarrow> (string list \<Rightarrow> string) \<Rightarrow> Writer
    \<Rightarrow> io_Writer \<Rightarrow> Feed \<Rightarrow> panic_value + CsvWriter" where
  "routes_table sort_Sort enc w file feed =
     (let addFieldsOrder = map fst (RoutesAddFlds feed);
          header = routes_header @ addFieldsOrder;
          csvwriter = SetHeader (NewCsvWriter enc file) header
                        [''route_long_name'', ''route_short_name'', ''route_type'', ''route_id''];
          csvwriter = (if KeepColOrder w
                       then SetOrder csvwriter (ColOrders_Routes (ColOrders feed))
                       else csvwriter)
      in case buffer_rows csvwriter (map (route_row feed addFieldsOrder) (Routes feed)) of
           Inl r \<Rightarrow> Inl r
         | Inr csvwriter \<Rightarrow>
             (case (if Sorted w then SortByCols sort_Sort csvwriter 9 else Inr csvwriter) of
                Inl r \<Rightarrow> Inl r
              | Inr csvwriter \<Rightarrow> Flush csvwriter))"

definition writeRoutes :: "string list sort_routine \<Rightarrow> (string list \<Rightarrow> string) \<Rightarrow> Writer
    \<Rightarrow> destination \<Rightarrow> Feed \<Rightarrow> panic_value + go_error option \<times> Writer \<times> destination" where
  "writeRoutes sort_Sort enc w dest feed =
     (case getFileForWriting w dest ''routes.txt'' of
        (Inl e, w', dest') \<Rightarrow>
          Inr (Some (ErrorString ''Could not open required file routes.txt for writing''),
               w', dest')
      | (Inr file, w', dest') \<Rightarrow>
          finish_table ''routes.txt'' w' dest' (routes_table sort_Sort enc w' file feed))"

subsection \<open>calendar.txt\<close>

definition calendar_header :: "string list" where
  "calendar_header =
     [''monday'', ''tuesday'', ''wednesday'', ''thursday'', ''friday'', ''saturday'', ''sunday'',
      ''start_date'', ''end_date'', ''service_id'']"

definition hasCalendarEntries :: "Feed \<Rightarrow> bool" where
  "hasCalendarEntries feed = list_ex (\<lambda>v. RawDaymap v > 0 \<or> Service_IsEmpty v) (Services feed)"

text \<open>The rows a service gives: one with its week, one of zeros under
  \<^verbatim>\<open>ExplicitCalendar\<close>, or none.\<close>

definition calendar_rows :: "Writer \<Rightarrow> Service \<Rightarrow> string list list" where
  "calendar_rows w v =
     (if RawDaymap v > 0 \<or> Service_IsEmpty v
      then [[boolToGtfsBool (Daymap v 1) True, boolToGtfsBool (Daymap v 2) True,
             boolToGtfsBool (Daymap v 3) True, boolToGtfsBool (Daymap v 4) True,
             boolToGtfsBool (Daymap v 5) True, boolToGtfsBool (Daymap v 6) True,
             boolToGtfsBool (Daymap v 0) True, dateToString (Service_Start_date v),
             dateToString (Service_End_date v), Service_Id v]]
      else if ExplicitCalendar w
      then [[''0'', ''0'', ''0'', ''0'', ''0'', ''0'', ''0'', dateToString (GetFirstDefinedDate v),
             dateToString (GetLastDefinedDate v), Service_Id v]]
      else [])"

definition calendar_table :: "string list sort_routine \<Rightarrow> (string list \<Rightarrow> string) \<Rightarrow> Writer
    \<Rightarrow> io_Writer \<Rightarrow> Feed \<Rightarrow> panic_value + CsvWriter" where
  "calendar_table sort_Sort enc w file feed =
     (let csvwriter = SetHeader (NewCsvWriter enc file) calendar_header
                        [''monday'', ''tuesday'', ''wednesday'', ''thursday'', ''friday'',
                         ''saturday'', ''sunday'', ''start_date'', ''end_date'', ''service_id''];
          csvwriter = (if KeepColOrder w
                       then SetOrder csvwriter (ColOrders_Calendar (ColOrders feed))
                       else csvwriter)
      in case buffer_rows csvwriter (concat (map (calendar_rows w) (Services feed))) of
           Inl r \<Rightarrow> Inl r
         | Inr csvwriter \<Rightarrow>
             (case (if Sorted w then SortByCols sort_Sort csvwriter 10 else Inr csvwriter) of
                Inl r \<Rightarrow> Inl r
              | Inr csvwriter \<Rightarrow> Flush csvwriter))"

definition writeCalendar :: "string list sort_routine \<Rightarrow> (string list \<Rightarrow> string) \<Rightarrow> Writer
    \<Rightarrow> destination \<Rightarrow> Feed \<Rightarrow> panic_value + go_error option \<times> Writer \<times> destination" where
  "writeCalendar sort_Sort enc w dest feed =
     (if \<not> hasCalendarEntries feed \<and> \<not> ExplicitCalendar w
      then (case delExistingFile dest ''calendar.txt'' of (err, dest') \<Rightarrow> Inr (err, w, dest'))
      else
        (case getFileForWriting w dest ''calendar.txt'' of
           (Inl e, w', dest') \<Rightarrow>
             Inr (Some (ErrorString ''Could not open required file calendar.txt for writing''),
                  w', dest')
         | (Inr file, w', dest') \<Rightarrow>
             finish_table ''calendar.txt'' w' dest' (calendar_table sort_Sort enc w' file feed)))"

subsection \<open>calendar_dates.txt\<close>

definition calendar_dates_header :: "string list" where
  "calendar_dates_header = [''service_id'', ''exception_type'', ''date'']"

definition hasCalendarDatesEntries :: "Feed \<Rightarrow> bool" where
  "hasCalendarDatesEntries feed = list_ex (\<lambda>v. length (Exceptions v) > 0) (Services feed)"

definition calendar_date_row :: "Service \<Rightarrow> gtfs_Date \<times> bool \<Rightarrow> string list" where
  "calendar_date_row v x =
     (case x of (d, traw) \<Rightarrow>
        (let t = (if \<not> traw then 2 else 1)
         in [Service_Id v, posIntToString t, dateToString d]))"

definition calendar_dates_table :: "string list sort_routine \<Rightarrow> (string list \<Rightarrow> string) \<Rightarrow> Writer
    \<Rightarrow> io_Writer \<Rightarrow> Feed \<Rightarrow> panic_value + CsvWriter" where
  "calendar_dates_table sort_Sort enc w file feed =
     (let csvwriter = SetHeader (NewCsvWriter enc file) calendar_dates_header
                        [''service_id'', ''exception_type'', ''date''];
          csvwriter = (if KeepColOrder w
                       then SetOrder csvwriter (ColOrders_CalendarDates (ColOrders feed))
                       else csvwriter)
      in case buffer_rows csvwriter
                (concat (map (\<lambda>v. map (calendar_date_row v) (Exceptions v)) (Services feed))) of
           Inl r \<Rightarrow> Inl r
         | Inr csvwriter \<Rightarrow>
             (case (if Sorted w then SortByCols sort_Sort csvwriter 3 else Inr csvwriter) of
                Inl r \<Rightarrow> Inl r
              | Inr csvwriter \<Rightarrow> Flush csvwriter))"

definition writeCalendarDates :: "string list sort_routine \<Rightarrow> (string list \<Rightarrow> string) \<Rightarrow> Writer
    \<Rightarrow> destination \<Rightarrow> Feed \<Rightarrow> panic_value + go_error option \<times> Writer \<times> destination" where
  "writeCalendarDates sort_Sort enc w dest feed =
     (if \<not> hasCalendarDatesEntries feed
      then (case delExistingFile dest ''calendar_dates.txt'' of
              (err, dest') \<Rightarrow> Inr (err, w, dest'))
      else
        (case getFileForWriting w dest ''calendar_dates.txt'' of
           (Inl e, w', dest') \<Rightarrow>
             Inr (Some (ErrorString
                          ''Could not open required file calendar_dates.txt for writing''),
                  w', dest')
         | (Inr file, w', dest') \<Rightarrow>
             finish_table ''calendar_dates.txt'' w' dest'
               (calendar_dates_table sort_Sort enc w' file feed)))"

subsection \<open>trips.txt\<close>

definition trips_header :: "string list" where
  "trips_header =
     [''route_id'', ''service_id'', ''trip_headsign'', ''trip_short_name'', ''direction_id'',
      ''block_id'', ''shape_id'', ''trip_id'', ''wheelchair_accessible'', ''bikes_allowed'']"

definition trip_row :: "Feed \<Rightarrow> string list \<Rightarrow> Trip \<Rightarrow> string list" where
  "trip_row feed addFieldsOrder t =
     (let wa = (if Trip_Wheelchair_accessible t = 0 then - 1 else Trip_Wheelchair_accessible t);
          ba = (if Trip_Bikes_allowed t = 0 then - 1 else Trip_Bikes_allowed t);
          blockid = string_or_empty (Trip_Block_id t);
          shortname = string_or_empty (Trip_Short_name t)
      in (case Trip_Shape t of
            None \<Rightarrow>
              [Route_Id (Trip_Route t), Service_Id (Trip_Service t),
               strings_Replace (Trip_Headsign t) newline '' '',
               strings_Replace shortname newline '' '', posIntToString (Trip_Direction_id t),
               blockid, [], Trip_Id t, posIntToString wa, posIntToString ba]
          | Some shape_id \<Rightarrow>
              [Route_Id (Trip_Route t), Service_Id (Trip_Service t),
               strings_Replace (Trip_Headsign t) newline '' '',
               strings_Replace shortname newline '' '', posIntToString (Trip_Direction_id t),
               blockid, shape_id, Trip_Id t, posIntToString wa, posIntToString ba])
         @ addFlds (TripsAddFlds feed) addFieldsOrder (Trip_Id t))"

definition trips_table :: "string list sort_routine \<Rightarrow> (string list \<Rightarrow> string) \<Rightarrow> Writer
    \<Rightarrow> io_Writer \<Rightarrow> Feed \<Rightarrow> panic_value + CsvWriter" where
  "trips_table sort_Sort enc w file feed =
     (let addFieldsOrder = map fst (TripsAddFlds feed);
          header = trips_header @ addFieldsOrder;
          csvwriter = SetHeader (NewCsvWriter enc file) header
                        [''route_id'', ''service_id'', ''trip_id''];
          csvwriter = (if KeepColOrder w
                       then SetOrder csvwriter (ColOrders_Trips (ColOrders feed))
                       else csvwriter)
      in case buffer_rows csvwriter (map (trip_row feed addFieldsOrder) (Trips feed)) of
           Inl r \<Rightarrow> Inl r
         | Inr csvwriter \<Rightarrow>
             (case (if Sorted w then SortByCols sort_Sort csvwriter 10 else Inr csvwriter) of
                Inl r \<Rightarrow> Inl r
              | Inr csvwriter \<Rightarrow> Flush csvwriter))"

definition writeTrips :: "string list sort_routine \<Rightarrow> (string list \<Rightarrow> string) \<Rightarrow> Writer
    \<Rightarrow> destination \<Rightarrow> Feed \<Rightarrow> panic_value + go_error option \<times> Writer \<times> destination" where
  "writeTrips sort_Sort enc w dest feed =
     (case getFileForWriting w dest ''trips.txt'' of
        (Inl e, w', dest') \<Rightarrow>
          Inr (Some (ErrorString ''Could not open required file trips.txt for writing''),
               w', dest')
      | (Inr file, w', dest') \<Rightarrow>
          finish_table ''trips.txt'' w' dest' (trips_table sort_Sort enc w' file feed))"

subsection \<open>stop_times.txt\<close>

text \<open>stop_times.txt is streamed like shapes.txt, with twelve fixed columns; the trips are
  sorted by the type, the long name and the id of their route, their headsign and their
  id.\<close>

definition stop_times_header :: "string list" where
  "stop_times_header =
     [''trip_id'', ''arrival_time'', ''departure_time'', ''stop_id'', ''stop_sequence'',
      ''stop_headsign'', ''pickup_type'', ''drop_off_type'', ''continuous_pickup'',
      ''continuous_drop_off'', ''shape_dist_traveled'', ''timepoint'']"

definition tripLines_Less :: "Trip \<Rightarrow> Trip \<Rightarrow> panic_value + bool" where
  "tripLines_Less a b =
     Inr (Route_Type (Trip_Route a) < Route_Type (Trip_Route b) \<or>
          (Route_Type (Trip_Route a) = Route_Type (Trip_Route b) \<and>
           Route_Long_name (Trip_Route a) < Route_Long_name (Trip_Route b)) \<or>
          (Route_Type (Trip_Route a) = Route_Type (Trip_Route b) \<and>
           Route_Long_name (Trip_Route a) = Route_Long_name (Trip_Route b) \<and>
           Trip_Headsign a < Trip_Headsign b) \<or>
          (Route_Type (Trip_Route a) = Route_Type (Trip_Route b) \<and>
           Route_Long_name (Trip_Route a) = Route_Long_name (Trip_Route b) \<and>
           Trip_Headsign a = Trip_Headsign b \<and>
           Route_Id (Trip_Route a) < Route_Id (Trip_Route b)) \<or>
          (Route_Type (Trip_Route a) = Route_Type (Trip_Route b) \<and>
           Route_Long_name (Trip_Route a) = Route_Long_name (Trip_Route b) \<and>
           Trip_Headsign a = Trip_Headsign b \<and>
           Route_Id (Trip_Route a) = Route_Id (Trip_Route b) \<and>
           Trip_Id a < Trip_Id b))"

definition stopTimeLine :: "(float32 \<Rightarrow> string) \<Rightarrow> Trip \<Rightarrow> StopTime \<Rightarrow> string list" where
  "stopTimeLine formatFloat v st =
     (let distTrav = (if StopTime_HasDistanceTraveled st
                      then formatFloat (StopTime_Shape_dist_traveled st) else []);
          puType = (if StopTime_Pickup_type st = 0 then - 1 else StopTime_Pickup_type st);
          doType = (if StopTime_Drop_off_type st = 0 then - 1 else StopTime_Drop_off_type st);
          contPickup = (if StopTime_Continuous_pickup st = 1 then - 1
                        else StopTime_Continuous_pickup st);
          contDropOff = (if StopTime_Continuous_drop_off st = 1 then - 1
                         else StopTime_Continuous_drop_off st);
          cells = (if Time_Empty (StopTime_Arrival_time st) \<or>
                      Time_Empty (StopTime_Departure_time st)
                   then ([], [], [])
                   else if StopTime_Timepoint st
                   then (timeToString (StopTime_Arrival_time st),
                         timeToString (StopTime_Departure_time st), [])
                   else (timeToString (StopTime_Arrival_time st),
                         timeToString (StopTime_Departure_time st), ''0''))
      in case cells of (row1, row2, row11) \<Rightarrow>
           [Trip_Id v, row1, row2, StopTime_Stop st, posIntToString (StopTime_Sequence st),
            StopTime_Headsign st, posIntToString puType, posIntToString doType,
            posIntToString contPickup, posIntToString contDropOff, distTrav, row11])"

definition stop_time_probe_row :: "(float32 \<Rightarrow> string) \<Rightarrow> Feed \<Rightarrow> Trip \<Rightarrow> StopTime
    \<Rightarrow> string list" where
  "stop_time_probe_row formatFloat feed v st =
     stopTimeLine formatFloat v st @ replicate (length (StopTimesAddFlds feed)) ''-''"

definition stop_time_row :: "(float32 \<Rightarrow> string) \<Rightarrow> Feed \<Rightarrow> string list \<Rightarrow> Trip \<Rightarrow> StopTime
    \<Rightarrow> string list" where
  "stop_time_row formatFloat feed addFieldsOrder v st =
     stopTimeLine formatFloat v st @
     addFlds2 (StopTimesAddFlds feed) addFieldsOrder (Trip_Id v) (StopTime_Sequence st)"

definition stop_times_table :: "Trip sort_routine \<Rightarrow> (string list \<Rightarrow> string) \<Rightarrow> (float32 \<Rightarrow> string)
    \<Rightarrow> Writer \<Rightarrow> io_Writer \<Rightarrow> Feed \<Rightarrow> panic_value + CsvWriter" where
  "stop_times_table sort_Sort enc formatFloat w file feed =
     (let addFieldsOrder = map fst (StopTimesAddFlds feed);
          header = stop_times_header @ addFieldsOrder;
          csvwriter = SetHeader (NewCsvWriter enc file) header
                        [''trip_id'', ''arrival_time'', ''departure_time'', ''stop_id'',
                         ''stop_sequence''];
          csvwriter = (if KeepColOrder w
                       then SetOrder csvwriter (ColOrders_StopTimes (ColOrders feed))
                       else csvwriter)
      in case probe_rows csvwriter
                (concat (map (\<lambda>v. map (stop_time_probe_row formatFloat feed v) (Trip_StopTimes v))
                           (Trips feed))) of
           Inl r \<Rightarrow> Inl r
         | Inr csvwriter \<Rightarrow>
             (case (if Sorted w then sort_Sort tripLines_Less (Trips feed)
                    else Inr (Trips feed)) of
                Inl r \<Rightarrow> Inl r
              | Inr tripLines \<Rightarrow>
                  (case WriteHeader csvwriter of
                     Inl r \<Rightarrow> Inl r
                   | Inr csvwriter \<Rightarrow>
                       (case write_lines csvwriter
                               (concat (map (\<lambda>v. map (stop_time_row formatFloat feed
                                                         addFieldsOrder v)
                                                  (Trip_StopTimes v)) tripLines)) of
                          Inl r \<Rightarrow> Inl r
                        | Inr csvwriter \<Rightarrow> Inr (FlushFile csvwriter)))))"

definition writeStopTimes :: "Trip sort_routine \<Rightarrow> (string list \<Rightarrow> string) \<Rightarrow> (float32 \<Rightarrow> string)
    \<Rightarrow> Writer \<Rightarrow> destination \<Rightarrow> Feed
    \<Rightarrow> panic_value + go_error option \<times> Writer \<times> destination" where
  "writeStopTimes sort_Sort enc formatFloat w dest feed =
     (case getFileForWriting w dest ''stop_times.txt'' of
        (Inl e, w', dest') \<Rightarrow>
          Inr (Some (ErrorString ''Could not open required file stop_times.txt for writing''),
               w', dest')
      | (Inr file, w', dest') \<Rightarrow>
          finish_table ''stop_times.txt'' w' dest'
            (stop_times_table sort_Sort enc formatFloat w' file feed))"

subsection \<open>fare_attributes.txt and fare_rules.txt\<close>

definition fare_attributes_header :: "string list" where
  "fare_attributes_header =
     [''fare_id'', ''price'', ''currency_type'', ''payment_method'', ''transfers'',
      ''transfer_duration'', ''agency_id'']"

definition fare_attribute_row :: "Feed \<Rightarrow> string list \<Rightarrow> FareAttribute \<Rightarrow> string list" where
  "fare_attribute_row feed addFieldsOrder v =
     (let agencyId = string_or_empty (Fare_Agency v)
      in [Fare_Id v, Fare_Price v, Fare_Currency_type v, posIntToString (Fare_Payment_method v),
          posIntToString (Fare_Transfers v), posIntToString (Fare_Transfer_duration v), agencyId]
         @ addFlds (FareAttributesAddFlds feed) addFieldsOrder (Fare_Id v))"

definition fare_attributes_table :: "string list sort_routine \<Rightarrow> (string list \<Rightarrow> string) \<Rightarrow> Writer
    \<Rightarrow> io_Writer \<Rightarrow> Feed \<Rightarrow> panic_value + CsvWriter" where
  "fare_attributes_table sort_Sort enc w file feed =
     (let addFieldsOrder = map fst (FareAttributesAddFlds feed);
          header = fare_attributes_header @ addFieldsOrder;
          csvwriter = SetHeader (NewCsvWriter enc file) header
                        [''fare_id'', ''price'', ''currency_type'', ''payment_method'',
                         ''transfers''];
          csvwriter = (if KeepColOrder w
                       then SetOrder csvwriter (ColOrders_FareAttributes (ColOrders feed))
                       else csvwriter)
      in case buffer_rows csvwriter
                (map (fare_attribute_row feed addFieldsOrder) (FareAttributes feed)) of
           Inl r \<Rightarrow> Inl r
         | Inr csvwriter \<Rightarrow>
             (case (if Sorted w then SortByCols sort_Sort csvwriter 1 else Inr csvwriter) of
                Inl r \<Rightarrow> Inl r
              | Inr csvwriter \<Rightarrow> Flush csvwriter))"

definition writeFareAttributes :: "string list sort_routine \<Rightarrow> (string list \<Rightarrow> string) \<Rightarrow> Writer
    \<Rightarrow> destination \<Rightarrow> Feed \<Rightarrow> panic_value + go_error option \<times> Writer \<times> destination" where
  "writeFareAttributes sort_Sort enc w dest feed =
     (if length (FareAttributes feed) = 0
      then (case delExistingFile dest ''fare_attributes.txt'' of
              (err, dest') \<Rightarrow> Inr (err, w, dest'))
      else
        (case getFileForWriting w dest ''fare_attributes.txt'' of
           (Inl e, w', dest') \<Rightarrow>
             Inr (Some (ErrorString
                          ''Could not open required file fare_attributes.txt for writing''),
                  w', dest')
         | (Inr file, w', dest') \<Rightarrow>
             finish_table ''fare_attributes.txt'' w' dest'
               (fare_attributes_table sort_Sort enc w' file feed)))"

definition fare_rules_header :: "string list" where
  "fare_rules_header = [''fare_id'', ''route_id'', ''origin_id'', ''destination_id'', ''contains_id'']"

definition hasFareAttrRules :: "Feed \<Rightarrow> bool" where
  "hasFareAttrRules feed = list_ex (\<lambda>v. length (Fare_Rules v) > 0) (FareAttributes feed)"

definition fare_rule_row :: "Feed \<Rightarrow> string list \<Rightarrow> FareAttribute \<Rightarrow> FareAttributeRule
    \<Rightarrow> string list" where
  "fare_rule_row feed addFieldsOrder v r =
     (case Rule_Route r of
        None \<Rightarrow> [Fare_Id v, [], Rule_Origin_id r, Rule_Destination_id r, Rule_Contains_id r]
      | Some route_id \<Rightarrow>
          [Fare_Id v, route_id, Rule_Origin_id r, Rule_Destination_id r, Rule_Contains_id r])
     @ addFlds2 (FareRulesAddFlds feed) addFieldsOrder (Fare_Id v) (Rule_ptr r)"

definition fare_rules_table :: "string list sort_routine \<Rightarrow> (string list \<Rightarrow> string) \<Rightarrow> Writer
    \<Rightarrow> io_Writer \<Rightarrow> Feed \<Rightarrow> panic_value + CsvWriter" where
  "fare_rules_table sort_Sort enc w file feed =
     (let addFieldsOrder = map fst (FareRulesAddFlds feed);
          header = fare_rules_header @ addFieldsOrder;
          csvwriter = SetHeader (NewCsvWriter enc file) header [''fare_id''];
          csvwriter = (if KeepColOrder w
                       then SetOrder csvwriter (ColOrders_FareAttributeRules (ColOrders feed))
                       else csvwriter)
      in case buffer_rows csvwriter
                (concat (map (\<lambda>v. map (fare_rule_row feed addFieldsOrder v) (Fare_Rules v))
                           (FareAttributes feed))) of
           Inl r \<Rightarrow> Inl r
         | Inr csvwriter \<Rightarrow>
             (case (if Sorted w then SortByCols sort_Sort csvwriter 5 else Inr csvwriter) of
                Inl r \<Rightarrow> Inl r
              | Inr csvwriter \<Rightarrow> Flush csvwriter))"

definition writeFareAttributeRules :: "string list sort_routine \<Rightarrow> (string list \<Rightarrow> string)
    \<Rightarrow> Writer \<Rightarrow> destination \<Rightarrow> Feed
    \<Rightarrow> panic_value + go_error option \<times> Writer \<times> destination" where
  "writeFareAttributeRules sort_Sort enc w dest feed =
     (if \<not> hasFareAttrRules feed
      then (case delExistingFile dest ''fare_rules.txt'' of (err, dest') \<Rightarrow> Inr (err, w, dest'))
      else
        (case getFileForWriting w dest ''fare_rules.txt'' of
           (Inl e, w', dest') \<Rightarrow>
             Inr (Some (ErrorString ''Could not open required file fare_rules.txt for writing''),
                  w', dest')
         | (Inr file, w', dest') \<Rightarrow>
             finish_table ''fare_rules.txt'' w' dest'
               (fare_rules_table sort_Sort enc w' file feed)))"

subsection \<open>frequencies.txt\<close>

definition frequencies_header :: "string list" where
  "frequencies_header = [''trip_id'', ''start_time'', ''end_time'', ''headway_secs'', ''exact_times'']"

definition hasFrequencies :: "Feed \<Rightarrow> bool" where
  "hasFrequencies feed =
     list_ex (\<lambda>v. case Trip_Frequencies v of None \<Rightarrow> False | Some fs \<Rightarrow> length fs > 0)
       (Trips feed)"

definition frequency_row :: "Feed \<Rightarrow> string list \<Rightarrow> Trip \<Rightarrow> Frequency \<Rightarrow> string list" where
  "frequency_row feed addFieldsOrder v f =
     (if \<not> Frequency_Exact_times f
      then [Trip_Id v, timeToString (Frequency_Start_time f), timeToString (Frequency_End_time f),
            posIntToString (Frequency_Headway_secs f), []]
      else [Trip_Id v, timeToString (Frequency_Start_time f), timeToString (Frequency_End_time f),
            posIntToString (Frequency_Headway_secs f), ''1''])
     @ addFlds2 (FrequenciesAddFlds feed) addFieldsOrder (Trip_Id v) (Frequency_ptr f)"

definition frequencies_table :: "string list sort_routine \<Rightarrow> (string list \<Rightarrow> string) \<Rightarrow> Writer
    \<Rightarrow> io_Writer \<Rightarrow> Feed \<Rightarrow> panic_value + CsvWriter" where
  "frequencies_table sort_Sort enc w file feed =
     (let addFieldsOrder = map fst (FrequenciesAddFlds feed);
          header = frequencies_header @ addFieldsOrder;
          csvwriter = SetHeader (NewCsvWriter enc file) header
                        [''trip_id'', ''start_time'', ''end_time'', ''headway_secs''];
          csvwriter = (if KeepColOrder w
                       then SetOrder csvwriter (ColOrders_Frequencies (ColOrders feed))
                       else csvwriter)
      in case buffer_rows csvwriter
                (concat (map (\<lambda>v. case Trip_Frequencies v of
                                    None \<Rightarrow> []
                                  | Some fs \<Rightarrow> map (frequency_row feed addFieldsOrder v) fs)
                           (Trips feed))) of
           Inl r \<Rightarrow> Inl r
         | Inr csvwriter \<Rightarrow>
             (case (if Sorted w then SortByCols sort_Sort csvwriter 5 else Inr csvwriter) of
                Inl r \<Rightarrow> Inl r
              | Inr csvwriter \<Rightarrow> Flush csvwriter))"

definition writeFrequencies :: "string list sort_routine \<Rightarrow> (string list \<Rightarrow> string) \<Rightarrow> Writer
    \<Rightarrow> destination \<Rightarrow> Feed \<Rightarrow> panic_value + go_error option \<times> Writer \<times> destination" where
  "writeFrequencies sort_Sort enc w dest feed =
     (if \<not> hasFrequencies feed
      then (case delExistingFile dest ''frequencies.txt'' of (err, dest') \<Rightarrow> Inr (err, w, dest'))
      else
        (case getFileForWriting w dest ''frequencies.txt'' of
           (Inl e, w', dest') \<Rightarrow>
             Inr (Some (ErrorString ''Could not open required file frequencies.txt for writing''),
                  w', dest')
         | (Inr file, w', dest') \<Rightarrow>
             finish_table ''frequencies.txt'' w' dest'
               (frequencies_table sort_Sort enc w' file feed)))"

subsection \<open>transfers.txt\<close>

definition transfers_header :: "string list" where
  "transfers_header =
     [''from_stop_id'', ''to_stop_id'', ''from_route_id'', ''to_route_id'', ''from_trip_id'',
      ''to_trip_id'', ''transfer_type'', ''min_transfer_time'']"

definition transfer_row :: "Feed \<Rightarrow> string list \<Rightarrow> Transfer \<Rightarrow> string list" where
  "transfer_row feed addFieldsOrder tv =
     (let transferType = (if Transfer_type tv = 0 then - 1 else Transfer_type tv);
          from_sid = string_or_empty (Transfer_From_stop tv);
          to_sid = string_or_empty (Transfer_To_stop tv);
          from_rid = string_or_empty (Transfer_From_route tv);
          to_rid = string_or_empty (Transfer_To_route tv);
          from_tid = string_or_empty (Transfer_From_trip tv);
          to_tid = string_or_empty (Transfer_To_trip tv)
      in [from_sid, to_sid, from_rid, to_rid, from_tid, to_tid, posIntToString transferType,
          posIntToString (Min_transfer_time tv)]
         @ addFlds (TransfersAddFlds feed) addFieldsOrder (Transfer_key tv))"

definition transfers_table :: "string list sort_routine \<Rightarrow> (string list \<Rightarrow> string) \<Rightarrow> Writer
    \<Rightarrow> io_Writer \<Rightarrow> Feed \<Rightarrow> panic_value + CsvWriter" where
  "transfers_table sort_Sort enc w file feed =
     (let addFieldsOrder = map fst (TransfersAddFlds feed);
          header = transfers_header @ addFieldsOrder;
          csvwriter = SetHeader (NewCsvWriter enc file) header [''transfer_type''];
          csvwriter = (if KeepColOrder w
                       then SetOrder csvwriter (ColOrders_Transfers (ColOrders feed))
                       else csvwriter)
      in case buffer_rows csvwriter (map (transfer_row feed addFieldsOrder) (Transfers feed)) of
           Inl r \<Rightarrow> Inl r
         | Inr csvwriter \<Rightarrow>
             (case (if Sorted w then SortByCols sort_Sort csvwriter 4 else Inr csvwriter) of
                Inl r \<Rightarrow> Inl r
              | Inr csvwriter \<Rightarrow> Flush csvwriter))"

definition writeTransfers :: "string list sort_routine \<Rightarrow> (string list \<Rightarrow> string) \<Rightarrow> Writer
    \<Rightarrow> destination \<Rightarrow> Feed \<Rightarrow> panic_value + go_error option \<times> Writer \<times> destination" where
  "writeTransfers sort_Sort enc w dest feed =
     (if length (Transfers feed) = 0
      then (case delExistingFile dest ''transfers.txt'' of (err, dest') \<Rightarrow> Inr (err, w, dest'))
      else
        (case getFileForWriting w dest ''transfers.txt'' of
           (Inl e, w', dest') \<Rightarrow>
             Inr (Some (ErrorString ''Could not open required file transfers.txt for writing''),
                  w', dest')
         | (Inr file, w', dest') \<Rightarrow>
             finish_table ''transfers.txt'' w' dest'
               (transfers_table sort_Sort enc w' file feed)))"

subsection \<open>levels.txt and pathways.txt\<close>

text \<open>The required names of levels.txt are those of the source; \<^verbatim>\<open>"fare_id"\<close> is no
  column of the table.\<close>

definition levels_header :: "string list" where
  "levels_header = [''level_id'', ''level_index'', ''level_name'']"

definition level_row :: "(float32 \<Rightarrow> string) \<Rightarrow> Feed \<Rightarrow> string list \<Rightarrow> Level \<Rightarrow> string list" where
  "level_row formatFloat feed addFieldsOrder v =
     [Level_Id v, formatFloat (Level_Index v), Level_Name v]
     @ addFlds (LevelsAddFlds feed) addFieldsOrder (Level_Id v)"

definition levels_table :: "string list sort_routine \<Rightarrow> (string list \<Rightarrow> string)
    \<Rightarrow> (float32 \<Rightarrow> string) \<Rightarrow> Writer \<Rightarrow> io_Writer \<Rightarrow> Feed \<Rightarrow> panic_value + CsvWriter" where
  "levels_table sort_Sort enc formatFloat w file feed =
     (let addFieldsOrder = map fst (LevelsAddFlds feed);
          header = levels_header @ addFieldsOrder;
          csvwriter = SetHeader (NewCsvWriter enc file) header [''fare_id'', ''level_index''];
          csvwriter = (if KeepColOrder w
                       then SetOrder csvwriter (ColOrders_Levels (ColOrders feed))
                       else csvwriter)
      in case buffer_rows csvwriter
                (map (level_row formatFloat feed addFieldsOrder) (Levels feed)) of
           Inl r \<Rightarrow> Inl r
         | Inr csvwriter \<Rightarrow>
             (case (if Sorted w then SortByCols sort_Sort csvwriter 1 else Inr csvwriter) of
                Inl r \<Rightarrow> Inl r
              | Inr csvwriter \<Rightarrow> Flush csvwriter))"

definition writeLevels :: "string list sort_routine \<Rightarrow> (string list \<Rightarrow> string)
    \<Rightarrow> (float32 \<Rightarrow> string) \<Rightarrow> Writer \<Rightarrow> destination \<Rightarrow> Feed
    \<Rightarrow> panic_value + go_error option \<times> Writer \<times> destination" where
  "writeLevels sort_Sort enc formatFloat w dest feed =
     (if length (Levels feed) = 0
      then (case delExistingFile dest ''levels.txt'' of (err, dest') \<Rightarrow> Inr (err, w, dest'))
      else
        (case getFileForWriting w dest ''levels.txt'' of
           (Inl e, w', dest') \<Rightarrow>
             Inr (Some (ErrorString ''Could not open required file levels.txt for writing''),
                  w', dest')
         | (Inr file, w', dest') \<Rightarrow>
             finish_table ''levels.txt'' w' dest'
               (levels_table sort_Sort enc formatFloat w' file feed)))"

definition pathways_header :: "string list" where
  "pathways_header =
     [''pathway_id'', ''from_stop_id'', ''to_stop_id'', ''pathway_mode'', ''is_bidirectional'',
      ''length'', ''traversal_time'', ''stair_count'', ''max_slope'', ''min_width'',
      ''signposted_as'', ''reversed_signposted_as'']"

text \<open>\<open>IsNaN\<close> is \<^verbatim>\<open>math.IsNaN\<close> of the value as a \<^verbatim>\<open>float64\<close>, \<open>is_zero\<close> the comparison
  \<^verbatim>\<open>== 0\<close>.\<close>

definition pathway_row :: "(float32 \<Rightarrow> string) \<Rightarrow> (float32 \<Rightarrow> bool) \<Rightarrow> (float32 \<Rightarrow> bool) \<Rightarrow> Feed
    \<Rightarrow> string list \<Rightarrow> Pathway \<Rightarrow> string list" where
  "pathway_row formatFloat IsNaN is_zero feed addFieldsOrder v =
     (let len = (if \<not> IsNaN (Pathway_Length v) then formatFloat (Pathway_Length v) else []);
          mwidth = (if \<not> IsNaN (Pathway_Min_width v) then formatFloat (Pathway_Min_width v)
                    else []);
          maxslope = (if \<not> is_zero (Pathway_Max_slope v) then formatFloat (Pathway_Max_slope v)
                      else [])
      in [Pathway_Id v, Pathway_From_stop v, Pathway_To_stop v, posIntToString (Pathway_Mode v),
          boolToGtfsBool (Pathway_Is_bidirectional v) True, len,
          posIntToString (Pathway_Traversal_time v), posNegIntToString (Pathway_Stair_count v),
          maxslope, mwidth, Pathway_Signposted_as v, Pathway_Reversed_signposted_as v]
         @ addFlds (PathwaysAddFlds feed) addFieldsOrder (Pathway_Id v))"

definition pathways_table :: "string list sort_routine \<Rightarrow> (string list \<Rightarrow> string)
    \<Rightarrow> (float32 \<Rightarrow> string) \<Rightarrow> (float32 \<Rightarrow> bool) \<Rightarrow> (float32 \<Rightarrow> bool) \<Rightarrow> Writer \<Rightarrow> io_Writer \<Rightarrow> Feed
    \<Rightarrow> panic_value + CsvWriter" where
  "pathways_table sort_Sort enc formatFloat IsNaN is_zero w file feed =
     (let addFieldsOrder = map fst (PathwaysAddFlds feed);
          header = pathways_header @ addFieldsOrder;
          csvwriter = SetHeader (NewCsvWriter enc file) header
                        [''pathway_id'', ''from_stop_id'', ''to_stop_id'', ''pathway_mode'',
                         ''is_bidirectional''];
          csvwriter = (if KeepColOrder w
                       then SetOrder csvwriter (ColOrders_Pathways (ColOrders feed))
                       else csvwriter)
      in case buffer_rows csvwriter
                (map (pathway_row formatFloat IsNaN is_zero feed addFieldsOrder) (Pathways feed)) of
           Inl r \<Rightarrow> Inl r
         | Inr csvwriter \<Rightarrow>
             (case (if Sorted w then SortByCols sort_Sort csvwriter 1 else Inr csvwriter) of
                Inl r \<Rightarrow> Inl r
              | Inr csvwriter \<Rightarrow> Flush csvwriter))"

definition writePathways :: "string list sort_routine \<Rightarrow> (string list \<Rightarrow> string)
    \<Rightarrow> (float32 \<Rightarrow> string) \<Rightarrow> (float32 \<Rightarrow> bool) \<Rightarrow> (float32 \<Rightarrow> bool) \<Rightarrow> Writer \<Rightarrow> destination
    \<Rightarrow> Feed \<Rightarrow> panic_value + go_error option \<times> Writer \<times> destination" where
  "writePathways sort_Sort enc formatFloat IsNaN is_zero w dest feed =
     (if length (Pathways feed) = 0
      then (case delExistingFile dest ''pathways.txt'' of (err, dest') \<Rightarrow> Inr (err, w, dest'))
      else
        (case getFileForWriting w dest ''pathways.txt'' of
           (Inl e, w', dest') \<Rightarrow>
             Inr (Some (ErrorString ''Could not open required file pathways.txt for writing''),
                  w', dest')
         | (Inr file, w', dest') \<Rightarrow>
             finish_table ''pathways.txt'' w' dest'
               (pathways_table sort_Sort enc formatFloat IsNaN is_zero w' file feed)))"

subsection \<open>attributions.txt\<close>

definition attributions_header :: "string list" where
  "attributions_header =
     [''attribution_id'', ''agency_id'', ''route_id'', ''trip_id'', ''organization_name'',
      ''is_producer'', ''is_operator'', ''is_authority'', ''attribution_url'',
      ''attribution_email'', ''attribution_phone'']"

definition attribution_row :: "Feed \<Rightarrow> string list \<Rightarrow> Attribution \<Rightarrow> string list" where
  "attribution_row feed addFieldsOrder a =
     (let url = string_or_empty (Attribution_Url a);
          email = string_or_empty (Attribution_Email a)
      in [Attribution_Id a, [], [], [], Attribution_Organization_name a,
          boolToGtfsBool (Attribution_Is_producer a) False,
          boolToGtfsBool (Attribution_Is_operator a) False,
          boolToGtfsBool (Attribution_Is_authority a) False, url, email, Attribution_Phone a]
         @ addFlds (AttributionsAddFlds feed) addFieldsOrder (Attribution_ptr a))"

definition entattr_row :: "Feed \<Rightarrow> string list \<Rightarrow> EntAttr \<Rightarrow> string list" where
  "entattr_row feed addFieldsOrder entattr =
     (let a = EntAttr_attr entattr;
          url = string_or_empty (Attribution_Url a);
          email = string_or_empty (Attribution_Email a);
          tripid = string_or_empty (EntAttr_trip entattr);
          routeid = string_or_empty (EntAttr_route entattr);
          agencyid = string_or_empty (EntAttr_agency entattr)
      in [Attribution_Id a, agencyid, routeid, tripid, Attribution_Organization_name a,
          boolToGtfsBool (Attribution_Is_producer a) False,
          boolToGtfsBool (Attribution_Is_operator a) False,
          boolToGtfsBool (Attribution_Is_authority a) False, url, email, Attribution_Phone a]
         @ addFlds (AttributionsAddFlds feed) addFieldsOrder (Attribution_ptr a))"

definition attributions_table :: "string list sort_routine \<Rightarrow> (string list \<Rightarrow> string) \<Rightarrow> Writer
    \<Rightarrow> io_Writer \<Rightarrow> Feed \<Rightarrow> EntAttr list \<Rightarrow> panic_value + CsvWriter" where
  "attributions_table sort_Sort enc w file feed attrs =
     (let addFieldsOrder = map fst (AttributionsAddFlds feed);
          header = attributions_header @ addFieldsOrder;
          csvwriter = SetHeader (NewCsvWriter enc file) header [''organization_name''];
          csvwriter = (if KeepColOrder w
                       then SetOrder csvwriter (ColOrders_Attributions (ColOrders feed))
                       else csvwriter)
      in case buffer_rows csvwriter
                (map (attribution_row feed addFieldsOrder) (Attributions feed) @
                 map (entattr_row feed addFieldsOrder) attrs) of
           Inl r \<Rightarrow> Inl r
         | Inr csvwriter \<Rightarrow>
             (case (if Sorted w then SortByCols sort_Sort csvwriter 1 else Inr csvwriter) of
                Inl r \<Rightarrow> Inl r
              | Inr csvwriter \<Rightarrow> Flush csvwriter))"

definition writeAttributions :: "string list sort_routine \<Rightarrow> (string list \<Rightarrow> string) \<Rightarrow> Writer
    \<Rightarrow> destination \<Rightarrow> Feed \<Rightarrow> EntAttr list
    \<Rightarrow> panic_value + go_error option \<times> Writer \<times> destination" where
  "writeAttributions sort_Sort enc w dest feed attrs =
     (if length (Attributions feed) = 0 \<and> length attrs = 0
      then (case delExistingFile dest ''attributions.txt'' of
              (err, dest') \<Rightarrow> Inr (err, w, dest'))
      else
        (case getFileForWriting w dest ''attributions.txt'' of
           (Inl e, w', dest') \<Rightarrow>
             Inr (Some (ErrorString ''Could not open required file attributions.txt for writing''),
                  w', dest')
         | (Inr file, w', dest') \<Rightarrow>
             finish_table ''attributions.txt'' w' dest'
               (attributions_table sort_Sort enc w' file feed attrs)))"

section \<open>The two ways to write a table\<close>

text \<open>
  The buffered way of the small tables: \<^verbatim>\<open>WriteCsvLine\<close> for every row, then
  \<^verbatim>\<open>Flush\<close>. The streaming way of shapes.txt and stop_times.txt, for rows whose first
  \<open>nfixed\<close> cells are those of the fixed columns: \<^verbatim>\<open>HeaderUsage\<close> for every row with
  \<^verbatim>\<open>"-"\<close> in its extension cells, then \<^verbatim>\<open>WriteHeader\<close>, \<^verbatim>\<open>WriteCsvLineRaw\<close> for every
  row, and \<^verbatim>\<open>FlushFile\<close>.
\<close>

definition buffered_path :: "CsvWriter \<Rightarrow> string list list \<Rightarrow> panic_value + CsvWriter" where
  "buffered_path p rows =
     (case buffer_rows p rows of Inl e \<Rightarrow> Inl e | Inr p' \<Rightarrow> Flush p')"

definition placeholder_row :: "nat \<Rightarrow> string list \<Rightarrow> string list" where
  "placeholder_row nfixed row = take nfixed row @ replicate (length row - nfixed) ''-''"

definition streaming_path :: "CsvWriter \<Rightarrow> nat \<Rightarrow> string list list \<Rightarrow> panic_value + CsvWriter" where
  "streaming_path p nfixed rows =
     (case probe_rows p (map (placeholder_row nfixed) rows) of
        Inl e \<Rightarrow> Inl e
      | Inr p1 \<Rightarrow>
          (case WriteHeader p1 of
             Inl e \<Rightarrow> Inl e
           | Inr p2 \<Rightarrow>
               (case write_lines p2 rows of
                  Inl e \<Rightarrow> Inl e
                | Inr p3 \<Rightarrow> Inr (FlushFile p3))))"

text \<open>The bytes that reached the file, where the table was written.\<close>

definition output_bytes :: "(string list \<Rightarrow> string) \<Rightarrow> panic_value + CsvWriter \<Rightarrow> string option" where
  "output_bytes enc res =
     (case res of Inl e \<Rightarrow> None | Inr p \<Rightarrow> Some (csv_bytes enc (flushed (writer p))))"

section \<open>Notions used in the statements\<close>

text \<open>The \<^verbatim>\<open>csv.Writer\<close> after \<^verbatim>\<open>Write\<close> has taken the records \<open>recs\<close>.\<close>

definition taken :: "csv_Writer \<Rightarrow> string list list \<Rightarrow> csv_Writer" where
  "taken w recs =
     w\<lparr>written := written w @ recs,
       unflushed := unflushed w + length (csv_bytes (encoder w) recs)\<rparr>"

text \<open>The cells of a row at the positions where the usage vector is true.\<close>

definition kept :: "bool list \<Rightarrow> 'a list \<Rightarrow> 'a list" where
  "kept u val = map snd (filter fst (zip u val))"

text \<open>Position of a name in the schema.\<close>

fun index_of :: "'a list \<Rightarrow> 'a \<Rightarrow> nat" where
  "index_of [] x = 0"
| "index_of (y # ys) x = (if x = y then 0 else Suc (index_of ys x))"

text \<open>
  A line of the schema \<open>hdr\<close> arranged for the order \<open>ord\<close> and the used columns: first the
  cells of the columns that \<open>ord\<close> names, in the order of \<open>ord\<close>, then the cells of the
  used columns that it does not name, in the order of the schema.
\<close>

definition arranged :: "string list \<Rightarrow> string list \<Rightarrow> (nat \<Rightarrow> bool) \<Rightarrow> 'a list \<Rightarrow> 'a list" where
  "arranged hdr ord used val =
     map (\<lambda>name. val ! index_of hdr name) (filter (\<lambda>name. name \<in> set hdr) ord) @
     map (\<lambda>k. val ! k) (filter (\<lambda>k. hdr ! k \<notin> set ord \<and> used k) [0..<length hdr])"

text \<open>Some row has a non-empty cell in the column at position \<open>k\<close>.\<close>

definition filled :: "string list list \<Rightarrow> nat \<Rightarrow> bool" where
  "filled rows k = (\<exists>r\<in>set rows. r ! k \<noteq> [])"

text \<open>Every newline replaced by one space, every other byte kept.\<close>

definition newlines_to_spaces :: "string \<Rightarrow> string" where
  "newlines_to_spaces s = map (\<lambda>c. if c = newline then CHR '' '' else c) s"

text \<open>
  What the specification words for free text, a run of newlines collapsed to a single
  space, to compare with what \<^verbatim>\<open>strings.Replace\<close> does.
\<close>

fun collapse_from :: "bool \<Rightarrow> string \<Rightarrow> string" where
  "collapse_from in_run [] = []"
| "collapse_from in_run (c # s) =
     (if c = newline
      then (if in_run then collapse_from True s else CHR '' '' # collapse_from True s)
      else c # collapse_from False s)"

definition spec_collapse_newlines :: "string \<Rightarrow> string" where
  "spec_collapse_newlines s = collapse_from False s"

section \<open>Sample inputs\<close>

text \<open>The bytes \<^verbatim>\<open>encoding/csv\<close> gives a record none of whose fields needs quotes: the
  fields with commas between them, and a newline.\<close>

fun joined :: "string list \<Rightarrow> string" where
  "joined [] = []"
| "joined [f] = f"
| "joined (f # g # fs) = f @ '','' @ joined (g # fs)"

definition unquoted_record :: "string list \<Rightarrow> string" where
  "unquoted_record r = joined r @ [newline]"

definition sample_table :: CsvWriter where
  "sample_table =
     SetHeader (NewCsvWriter unquoted_record Accepting) [''id'', ''name'', ''phone''] [''id'']"

definition plain_Writer :: Writer where
  "plain_Writer =
     \<lparr>curFileHandle = None, zipFile = None, ZipCompressionLevel = 0, Sorted = False,
      ExplicitCalendar = False, KeepColOrder = False\<rparr>"

definition empty_feed :: Feed where
  "empty_feed =
     \<lparr>Agencies = [], AgenciesAddFlds = [], FeedInfos = [], FeedInfosAddFlds = [], Stops = [],
      StopsAddFlds = [], Shapes = [], ShapesAddFlds = [], Routes = [], RoutesAddFlds = [],
      Services = [], Trips = [], TripsAddFlds = [], StopTimesAddFlds = [], FareAttributes = [],
      FareAttributesAddFlds = [], FareRulesAddFlds = [], FrequenciesAddFlds = [],
      Transfers = [], TransfersAddFlds = [], Levels = [], LevelsAddFlds = [], Pathways = [],
      PathwaysAddFlds = [], Attributions = [], AttributionsAddFlds = [],
      ColOrders = \<lparr>ColOrders_Agencies = [], ColOrders_FeedInfos = [], ColOrders_Stops = [],
                   ColOrders_Shapes = [], ColOrders_Routes = [], ColOrders_Calendar = [],
                   ColOrders_CalendarDates = [], ColOrders_Trips = [],
                   ColOrders_StopTimes = [''stop_id'', ''trip_id''],
                   ColOrders_FareAttributes = [], ColOrders_FareAttributeRules = [],
                   ColOrders_Frequencies = [], ColOrders_Transfers = [], ColOrders_Levels = [],
                   ColOrders_Pathways = [], ColOrders_Attributions = []\<rparr>\<rparr>"

definition stale_dir :: destination where
  "stale_dir =
     \<lparr>stat = Some Directory,
      entries = [(''feed_info.txt'', [[''feed_publisher_name''], [''Old'']]),
                 (''agency.txt'', [[''agency_name''], [''Old'']]),
                 (''calendar.txt'', [[''service_id''], [''Old'']])],
      denied = [], locked = False, stream = Accepting\<rparr>"

definition two_newlines :: Agency where
  "two_newlines =
     \<lparr>Agency_Id = ''1'', Agency_Name = [CHR ''A'', newline, newline, CHR ''B''],
      Agency_Url = Some ''http://a.example'', Agency_Timezone = ''Europe/Berlin'',
      Agency_Lang = [], Agency_Phone = [], Agency_Fare_url = None, Agency_Email = None\<rparr>"

definition sorted_Writer :: Writer where
  "sorted_Writer = plain_Writer\<lparr>Sorted := True, KeepColOrder := True\<rparr>"

definition explicit_Writer :: Writer where
  "explicit_Writer = plain_Writer\<lparr>ExplicitCalendar := True\<rparr>"

definition seven_rows :: "string list list" where
  "seven_rows =
     [[''b'', ''1''], [''b'', ''2''], [''c'', ''3''], [''c'', ''4''], [''c'', ''5''],
      [''c'', ''6''], [''a'', ''7'']]"

definition seven_row_table :: CsvWriter where
  "seven_row_table =
     (SetHeader (NewCsvWriter unquoted_record Accepting)
        [''key'', ''seq''] [''key'', ''seq''])\<lparr>lines := seven_rows\<rparr>"

definition one_agency_feed :: Feed where
  "one_agency_feed = empty_feed\<lparr>Agencies := [two_newlines]\<rparr>"

text \<open>An agency whose name alone is longer than the buffer of the \<^verbatim>\<open>csv.Writer\<close>.\<close>

definition long_name_feed :: Feed where
  "long_name_feed =
     empty_feed\<lparr>Agencies := [two_newlines\<lparr>Agency_Name := replicate 5000 CHR ''A''\<rparr>]\<rparr>"

definition full_disk :: destination where
  "full_disk = stale_dir\<lparr>stream := Rejecting ''no space left on device''\<rparr>"

text \<open>An attribution whose organization name has a newline.\<close>

definition two_line_organization :: Attribution where
  "two_line_organization =
     \<lparr>Attribution_ptr = 0, Attribution_Id = ''a1'',
      Attribution_Organization_name = [CHR ''A'', newline, CHR ''B''],
      Attribution_Is_producer = True, Attribution_Is_operator = False,
      Attribution_Is_authority = False, Attribution_Url = None, Attribution_Email = None,
      Attribution_Phone = []\<rparr>"

section \<open>Properties of the usage vector\<close>

lemma HeaderUsage_loop_ok:
  "i + length val \<le> length u \<Longrightarrow>
   \<exists>u'. HeaderUsage_loop i val u = Inr u' \<and> length u' = length u \<and>
     (\<forall>k < length u. u' ! k = (u ! k \<or> (i \<le> k \<and> k < i + length val \<and> val ! (k - i) \<noteq> [])))"
proof (induction val arbitrary: i u)
  case Nil
  then show ?case by auto
next
  case (Cons v vs)
  define w where "w = (if v = [] then u else u[i := True])"
  have len: "length w = length u" by (simp add: w_def)
  have "Suc i + length vs \<le> length w" using Cons.prems len by simp
  from Cons.IH [OF this] obtain u' where
    u': "HeaderUsage_loop (Suc i) vs w = Inr u'" "length u' = length w"
      "\<forall>k < length w. u' ! k = (w ! k \<or> (Suc i \<le> k \<and> k < Suc i + length vs \<and> vs ! (k - Suc i) \<noteq> []))"
    by blast
  have run: "HeaderUsage_loop i (v # vs) u = Inr u'"
    using u'(1) Cons.prems by (auto simp: w_def)
  have "u' ! k = (u ! k \<or> (i \<le> k \<and> k < i + length (v # vs) \<and> (v # vs) ! (k - i) \<noteq> []))"
    if "k < length u" for k
  proof (cases "k = i")
    case True
    then show ?thesis using u'(3) that len by (auto simp: w_def nth_list_update)
  next
    case False
    then show ?thesis using u'(3) that len
      by (auto simp: w_def nth_list_update nth_Cons' Suc_le_eq)
  qed
  with run u'(2) len show ?case by auto
qed

lemma usage_grows_refl: "usage_grows u u"
  by (simp add: usage_grows_def list_all2_same)

lemma usage_grows_nth:
  "usage_grows u u' = (length u' = length u \<and> (\<forall>i < length u. u ! i \<longrightarrow> u' ! i))"
  by (auto simp: usage_grows_def list_all2_conv_all_nth)

lemma usage_grows_trans:
  assumes "usage_grows u v" and "usage_grows v w"
  shows "usage_grows u w"
proof -
  from assms have l: "length v = length u" "length w = length u"
    and uv: "\<And>i. i < length u \<Longrightarrow> u ! i \<Longrightarrow> v ! i"
    and vw: "\<And>i. i < length u \<Longrightarrow> v ! i \<Longrightarrow> w ! i"
    by (simp_all add: usage_grows_nth)
  show ?thesis
    unfolding usage_grows_nth using l uv vw by blast
qed

lemma HeaderUsage_loop_grows:
  "HeaderUsage_loop i val u = Inr u' \<Longrightarrow> usage_grows u u'"
proof (induction val arbitrary: i u)
  case Nil
  then show ?case by (simp add: usage_grows_refl)
next
  case (Cons v vs)
  show ?case
  proof (cases "v = []")
    case True
    with Cons show ?thesis by simp
  next
    case False
    with Cons.prems have i: "i < length u"
      and run: "HeaderUsage_loop (i + 1) vs (u[i := True]) = Inr u'"
      by (auto split: if_splits)
    have "usage_grows u (u[i := True])"
      using i by (auto simp: usage_grows_def list_all2_conv_all_nth nth_list_update)
    with Cons.IH [OF run] show ?thesis by (rule usage_grows_trans [rotated])
  qed
qed

lemma HeaderUsage_grows:
  "HeaderUsage p val = Inr p' \<Longrightarrow> usage_grows (headerUsage p) (headerUsage p')"
  by (auto simp: HeaderUsage_def split: sum.splits dest: HeaderUsage_loop_grows)

lemma WriteCsvLine_grows:
  "WriteCsvLine p val = Inr p' \<Longrightarrow> usage_grows (headerUsage p) (headerUsage p')"
  using HeaderUsage_grows [of "p\<lparr>lines := lines p @ [val]\<rparr>" val p']
  by (simp add: WriteCsvLine_def)

lemma WriteCsvLineRaw_usage:
  "WriteCsvLineRaw p val = Inr p' \<Longrightarrow> headerUsage p' = headerUsage p"
  by (auto simp: WriteCsvLineRaw_def split: sum.splits option.splits prod.splits)

lemma WriteHeader_usage:
  "WriteHeader p = Inr p' \<Longrightarrow> headerUsage p' = headerUsage p"
  by (auto simp: WriteHeader_def split: sum.splits option.splits prod.splits)

lemma write_lines_usage:
  "write_lines p vs = Inr p' \<Longrightarrow> headerUsage p' = headerUsage p"
  by (induction vs arbitrary: p) (auto split: sum.splits dest: WriteCsvLineRaw_usage)

lemma Flush_usage:
  "headerUsage p' = headerUsage p" if "Flush p = Inr p'"
proof (cases "length (lines p) = 0")
  case True
  with that show ?thesis
    by (auto simp: Flush_def split: option.splits prod.splits)
next
  case False
  with that obtain p1 p2 where a: "WriteHeader p = Inr p1" and b: "write_lines p1 (lines p1) = Inr p2"
    and c: "p' = (FlushFile p2)\<lparr>lines := []\<rparr>"
    by (auto simp: Flush_def split: sum.splits)
  from WriteHeader_usage [OF a] write_lines_usage [OF b] c show ?thesis
    by (simp add: FlushFile_def)
qed

lemma SortByCols_usage:
  "SortByCols srt p d = Inr p' \<Longrightarrow> headerUsage p' = headerUsage p"
  by (auto simp: SortByCols_def split: sum.splits)

lemma call_grows:
  "call srt p c = Inr p' \<Longrightarrow> usage_grows (headerUsage p) (headerUsage p')"
  by (cases c)
    (auto simp: SetOrder_def FlushFile_def usage_grows_refl
      dest: HeaderUsage_grows WriteCsvLine_grows WriteCsvLineRaw_usage WriteHeader_usage
        Flush_usage SortByCols_usage)

lemma usage_monotonic:
  "calls srt p cs = Inr p' \<Longrightarrow> usage_grows (headerUsage p) (headerUsage p')"
proof (induction cs arbitrary: p)
  case Nil
  then show ?case by (simp add: usage_grows_refl)
next
  case (Cons c cs)
  from Cons.prems obtain p1 where c: "call srt p c = Inr p1" and r: "calls srt p1 cs = Inr p'"
    by (auto split: sum.splits)
  from call_grows [OF c] Cons.IH [OF r] show ?case by (rule usage_grows_trans)
qed

lemma HeaderUsage_loop_panics:
  "\<exists>k < length val. val ! k \<noteq> [] \<and> length u \<le> i + k \<Longrightarrow>
   HeaderUsage_loop i val u = Inl index_out_of_range"
proof (induction val arbitrary: i u)
  case Nil
  then show ?case by simp
next
  case (Cons v vs)
  then obtain k where k: "k < length (v # vs)" "(v # vs) ! k \<noteq> []" "length u \<le> i + k"
    by blast
  show ?case
  proof (cases k)
    case 0
    with k show ?thesis by simp
  next
    case (Suc k')
    with k have ex: "\<exists>k < length vs. vs ! k \<noteq> [] \<and> length w \<le> Suc i + k"
      if "length w = length u" for w
      using that by auto
    from Cons.IH [OF ex] show ?thesis by simp
  qed
qed

lemma SetHeader_length [simp]: "length (headerUsage (SetHeader p hdr req)) = length hdr"
proof -
  have m: "length (mark_required hdr r u) = length u" for r u
    unfolding mark_required_def by (rule fold_invariant [where Q = "\<lambda>_. True"]) auto
  have "length (fold (mark_required hdr) rs u) = length u" for rs u
    by (induction rs arbitrary: u) (simp_all add: m)
  then show ?thesis by (simp add: SetHeader_def)
qed

lemma SetHeader_headers [simp]: "headers (SetHeader p hdr req) = hdr"
  by (simp add: SetHeader_def)

lemma HeaderUsage_headers: "HeaderUsage p val = Inr p' \<Longrightarrow> headers p' = headers p"
  by (auto simp: HeaderUsage_def split: sum.splits)

lemma WriteCsvLineRaw_headers: "WriteCsvLineRaw p val = Inr p' \<Longrightarrow> headers p' = headers p"
  by (auto simp: WriteCsvLineRaw_def split: sum.splits option.splits prod.splits)

lemma WriteHeader_headers: "WriteHeader p = Inr p' \<Longrightarrow> headers p' = headers p"
  by (auto simp: WriteHeader_def split: sum.splits option.splits prod.splits)

lemma write_lines_headers: "write_lines p vs = Inr p' \<Longrightarrow> headers p' = headers p"
  by (induction vs arbitrary: p) (auto split: sum.splits dest: WriteCsvLineRaw_headers)

lemma Flush_headers:
  "headers p' = headers p" if "Flush p = Inr p'"
proof (cases "length (lines p) = 0")
  case True
  with that show ?thesis
    by (auto simp: Flush_def split: option.splits prod.splits)
next
  case False
  with that obtain p1 p2 where a: "WriteHeader p = Inr p1" and b: "write_lines p1 (lines p1) = Inr p2"
    and c: "p' = (FlushFile p2)\<lparr>lines := []\<rparr>"
    by (auto simp: Flush_def split: sum.splits)
  from WriteHeader_headers [OF a] write_lines_headers [OF b] c show ?thesis
    by (simp add: FlushFile_def)
qed

lemma call_headers: "call srt p c = Inr p' \<Longrightarrow> headers p' = headers p"
  by (cases c)
    (auto simp: SetOrder_def FlushFile_def WriteCsvLine_def SortByCols_def split: sum.splits
      dest: HeaderUsage_headers WriteCsvLineRaw_headers WriteHeader_headers Flush_headers)

lemma calls_headers: "calls srt p cs = Inr p' \<Longrightarrow> headers p' = headers p"
  by (induction cs arbitrary: p) (auto split: sum.splits dest: call_headers)

lemma calls_append:
  "calls srt p (cs1 @ cs2) =
     (case calls srt p cs1 of Inl e \<Rightarrow> Inl e | Inr p1 \<Rightarrow> calls srt p1 cs2)"
  by (induction cs1 arbitrary: p) (auto split: sum.splits)

text \<open>
  Claim C7. Between any two moments of the life of a table, that is after \<^verbatim>\<open>SetHeader\<close>
  and across any calls of \<^verbatim>\<open>SetOrder\<close>, \<^verbatim>\<open>HeaderUsage\<close>, \<^verbatim>\<open>WriteCsvLine\<close>,
  \<^verbatim>\<open>WriteCsvLineRaw\<close>, \<^verbatim>\<open>SortByCols\<close>, \<^verbatim>\<open>WriteHeader\<close>, \<^verbatim>\<open>Flush\<close> and \<^verbatim>\<open>FlushFile\<close>,
  the usage vector keeps its length and every entry that was true stays true: entries only
  change from false to true.
\<close>

theorem usage_only_grows:
  assumes "calls srt (SetHeader p0 hdr req) (cs1 @ cs2) = Inr p2"
  shows "\<exists>p1. calls srt (SetHeader p0 hdr req) cs1 = Inr p1 \<and> calls srt p1 cs2 = Inr p2 \<and>
           usage_grows (headerUsage (SetHeader p0 hdr req)) (headerUsage p1) \<and>
           usage_grows (headerUsage p1) (headerUsage p2)"
proof -
  from assms obtain p1 where a: "calls srt (SetHeader p0 hdr req) cs1 = Inr p1"
    and b: "calls srt p1 cs2 = Inr p2"
    by (auto simp: calls_append split: sum.splits)
  from usage_monotonic [OF a] usage_monotonic [OF b] a b show ?thesis by blast
qed

text \<open>
  Claim C10. \<^verbatim>\<open>HeaderUsage\<close> and \<^verbatim>\<open>WriteCsvLine\<close> index the usage vector by the position of
  the cell. For a row that is no longer than the schema given to \<^verbatim>\<open>SetHeader\<close> neither
  panics, and the new usage vector is the old one with exactly the positions of the
  non-empty cells set to true. A row with a non-empty cell beyond the schema makes both
  panic with an index out of range.
\<close>

theorem HeaderUsage_within_schema:
  assumes run: "calls srt (SetHeader p0 hdr req) cs = Inr p"
  shows "(length val \<le> length hdr \<longrightarrow>
            (\<exists>u. HeaderUsage p val = Inr (p\<lparr>headerUsage := u\<rparr>) \<and>
                 WriteCsvLine p val = Inr (p\<lparr>lines := lines p @ [val], headerUsage := u\<rparr>) \<and>
                 length u = length hdr \<and>
                 (\<forall>k < length hdr. u ! k = (headerUsage p ! k \<or> (k < length val \<and> val ! k \<noteq> []))))) \<and>
         ((\<exists>k < length val. length hdr \<le> k \<and> val ! k \<noteq> []) \<longrightarrow>
            HeaderUsage p val = Inl index_out_of_range \<and>
            WriteCsvLine p val = Inl index_out_of_range)"
proof -
  have len: "length (headerUsage p) = length hdr"
    using usage_monotonic [OF run] by (simp add: usage_grows_nth)
  show ?thesis
  proof (intro conjI impI)
    assume le: "length val \<le> length hdr"
    then have "0 + length val \<le> length (headerUsage p)" using len by simp
    from HeaderUsage_loop_ok [OF this] obtain u where
      u: "HeaderUsage_loop 0 val (headerUsage p) = Inr u" "length u = length hdr"
        "\<forall>k < length hdr. u ! k = (headerUsage p ! k \<or> (k < length val \<and> val ! k \<noteq> []))"
      using len by auto
    from u show "\<exists>u. HeaderUsage p val = Inr (p\<lparr>headerUsage := u\<rparr>) \<and>
                 WriteCsvLine p val = Inr (p\<lparr>lines := lines p @ [val], headerUsage := u\<rparr>) \<and>
                 length u = length hdr \<and>
                 (\<forall>k < length hdr. u ! k = (headerUsage p ! k \<or> (k < length val \<and> val ! k \<noteq> [])))"
      by (auto simp: HeaderUsage_def WriteCsvLine_def)
  next
    assume "\<exists>k < length val. length hdr \<le> k \<and> val ! k \<noteq> []"
    then have "\<exists>k < length val. val ! k \<noteq> [] \<and> length (headerUsage p) \<le> 0 + k"
      using len by auto
    from HeaderUsage_loop_panics [OF this]
    show "HeaderUsage p val = Inl index_out_of_range"
      and "WriteCsvLine p val = Inl index_out_of_range"
      by (simp_all add: HeaderUsage_def WriteCsvLine_def)
  qed
qed

text \<open>
  Claim C9. \<^verbatim>\<open>Flush\<close> on a writer without buffered rows hands one record to the
  \<^verbatim>\<open>csv.Writer\<close>, the schema exactly as it was given to \<^verbatim>\<open>SetHeader\<close>, whatever the
  usage vector and the order are, and flushes; no row follows and nothing else of the
  writer changes. Over a stream that accepts, the stream then holds the records written
  before and this header. Over a stream that rejects, nothing reaches the stream: while the
  header fits the buffer \<^verbatim>\<open>Flush\<close> returns all the same, and it panics with the message of
  the error when the header does not fit or an earlier error is kept.
\<close>

theorem Flush_without_rows:
  assumes run: "calls srt (SetHeader p0 hdr req) cs = Inr p"
    and empty: "lines p = []"
  shows "Flush p =
           (case failure (writer p) of
              Some m \<Rightarrow> Inl (PanicString m)
            | None \<Rightarrow>
                (case sink (writer p) of
                   Accepting \<Rightarrow>
                     Inr (p\<lparr>writer := (writer p)
                            \<lparr>written := written (writer p) @ [hdr],
                             flushed := written (writer p) @ [hdr],
                             unflushed := 0\<rparr>\<rparr>)
                 | Rejecting m \<Rightarrow>
                     if unflushed (writer p) + length (encoder (writer p) hdr) \<le> 4096
                     then Inr (p\<lparr>writer := (writer p)
                                 \<lparr>written := written (writer p) @ [hdr],
                                  unflushed := unflushed (writer p) + length (encoder (writer p) hdr),
                                  failure := (if unflushed (writer p) + length (encoder (writer p) hdr) = 0
                                              then None else Some m)\<rparr>\<rparr>)
                     else Inl (PanicString m)))"
proof -
  have h: "headers p = hdr" using calls_headers [OF run] by simp
  show ?thesis
    using empty h
    by (auto simp: Flush_def csv_Write_def csv_Flush_def Let_def
        split: option.splits io_Writer.splits)
qed

lemma upt_3: "[0..<3] = [0, 1, 2]"
  by (simp add: upt_rec)

lemma sample_table_value:
  "sample_table =
     \<lparr>writer = \<lparr>encoder = unquoted_record, sink = Accepting, written = [], flushed = [],
                unflushed = 0, failure = None\<rparr>,
      headers = [''id'', ''name'', ''phone''],
      headersMap = [(''id'', 0), (''name'', 1), (''phone'', 2)],
      headerUsage = [True, False, False], headerUsageCount = 0, lines = [], order = []\<rparr>"
  by (simp add: sample_table_def SetHeader_def NewCsvWriter_def csv_NewWriter_def
      mark_required_def upt_3)

theorem usage_only_grows_witness:
  "\<exists>p1 p2.
     calls short_sort sample_table ([CallWriteCsvLine [''7'', '''', ''555'']] @ [CallFlush]) = Inr p2 \<and>
     calls short_sort sample_table [CallWriteCsvLine [''7'', '''', ''555'']] = Inr p1 \<and>
     headerUsage sample_table = [True, False, False] \<and>
     headerUsage p1 = [True, False, True] \<and>
     usage_grows (headerUsage sample_table) (headerUsage p1) \<and>
     usage_grows (headerUsage p1) (headerUsage p2)"
proof -
  have "\<exists>p2. calls short_sort sample_table ([CallWriteCsvLine [''7'', '''', ''555'']] @ [CallFlush]) = Inr p2"
    by (simp add: sample_table_value WriteCsvLine_def HeaderUsage_def Flush_def WriteHeader_def
        maskLine_def WriteCsvLineRaw_def csv_Write_def csv_Flush_def FlushFile_def Let_def)
  then obtain p2 where full:
    "calls short_sort (SetHeader (NewCsvWriter unquoted_record Accepting)
       [''id'', ''name'', ''phone''] [''id''])
       ([CallWriteCsvLine [''7'', '''', ''555'']] @ [CallFlush]) = Inr p2"
    unfolding sample_table_def by blast
  from usage_only_grows [OF this] obtain p1 where
    p1: "calls short_sort sample_table [CallWriteCsvLine [''7'', '''', ''555'']] = Inr p1"
      "calls short_sort p1 [CallFlush] = Inr p2"
      "usage_grows (headerUsage sample_table) (headerUsage p1)"
      "usage_grows (headerUsage p1) (headerUsage p2)"
    unfolding sample_table_def by blast
  have u1: "headerUsage p1 = [True, False, True]"
    using p1(1) by (auto simp: sample_table_value WriteCsvLine_def HeaderUsage_def)
  have u0: "headerUsage sample_table = [True, False, False]"
    by (simp add: sample_table_value)
  from full have "calls short_sort sample_table
      ([CallWriteCsvLine [''7'', '''', ''555'']] @ [CallFlush]) = Inr p2"
    unfolding sample_table_def .
  with p1(1,3,4) u0 u1 show ?thesis by blast
qed

theorem HeaderUsage_within_schema_witness:
  "calls short_sort (SetHeader (NewCsvWriter unquoted_record Accepting)
       [''id'', ''name'', ''phone''] [''id'']) [] = Inr sample_table \<and>
   length [''7'', ''Bus''] \<le> length [''id'', ''name'', ''phone''] \<and>
   HeaderUsage sample_table [''7'', ''Bus''] =
     Inr (sample_table\<lparr>headerUsage := [True, True, False]\<rparr>) \<and>
   WriteCsvLine sample_table [''7'', ''Bus''] =
     Inr (sample_table\<lparr>lines := [[''7'', ''Bus'']], headerUsage := [True, True, False]\<rparr>) \<and>
   (\<exists>k < length [''7'', ''Bus'', '''', ''x'']. length [''id'', ''name'', ''phone''] \<le> k \<and>
      [''7'', ''Bus'', '''', ''x''] ! k \<noteq> []) \<and>
   HeaderUsage sample_table [''7'', ''Bus'', '''', ''x''] = Inl index_out_of_range"
proof -
  have run: "calls short_sort (SetHeader (NewCsvWriter unquoted_record Accepting)
       [''id'', ''name'', ''phone''] [''id'']) [] = Inr sample_table"
    by (simp add: sample_table_def)
  have ex: "\<exists>k < length [''7'', ''Bus'', '''', ''x'']. length [''id'', ''name'', ''phone''] \<le> k \<and>
      [''7'', ''Bus'', '''', ''x''] ! k \<noteq> []"
    by (rule exI [of _ 3]) simp
  have a: "HeaderUsage sample_table [''7'', ''Bus'', '''', ''x''] = Inl index_out_of_range"
    using HeaderUsage_within_schema [OF run, of "[''7'', ''Bus'', '''', ''x'']"] ex by blast
  have b: "HeaderUsage sample_table [''7'', ''Bus''] =
     Inr (sample_table\<lparr>headerUsage := [True, True, False]\<rparr>)"
    "WriteCsvLine sample_table [''7'', ''Bus''] =
     Inr (sample_table\<lparr>lines := [[''7'', ''Bus'']], headerUsage := [True, True, False]\<rparr>)"
    by (simp_all add: sample_table_value WriteCsvLine_def HeaderUsage_def)
  from run ex a b show ?thesis by simp
qed

theorem Flush_without_rows_witness:
  "Flush (SetOrder sample_table [''phone'', ''id'']) =
     Inr ((SetOrder sample_table [''phone'', ''id''])
            \<lparr>writer := \<lparr>encoder = unquoted_record, sink = Accepting,
                        written = [[''id'', ''name'', ''phone'']],
                        flushed = [[''id'', ''name'', ''phone'']],
                        unflushed = 0, failure = None\<rparr>\<rparr>) \<and>
   headerUsage (SetOrder sample_table [''phone'', ''id'']) = [True, False, False] \<and>
   order (SetOrder sample_table [''phone'', ''id'']) = [(''phone'', 0), (''id'', 1)] \<and>
   Flush (SetHeader (NewCsvWriter unquoted_record (Rejecting ''disk full''))
            [''id'', ''name'', ''phone''] [''id'']) =
     Inr ((SetHeader (NewCsvWriter unquoted_record (Rejecting ''disk full''))
             [''id'', ''name'', ''phone''] [''id''])
            \<lparr>writer := \<lparr>encoder = unquoted_record, sink = Rejecting ''disk full'',
                        written = [[''id'', ''name'', ''phone'']], flushed = [],
                        unflushed = 14, failure = Some ''disk full''\<rparr>\<rparr>)"
proof -
  let ?p = "SetOrder sample_table [''phone'', ''id'']"
  let ?q = "SetHeader (NewCsvWriter unquoted_record (Rejecting ''disk full''))
            [''id'', ''name'', ''phone''] [''id'']"
  have run: "calls short_sort (SetHeader (NewCsvWriter unquoted_record Accepting)
       [''id'', ''name'', ''phone''] [''id'']) [CallSetOrder [''phone'', ''id'']] = Inr ?p"
    by (simp add: sample_table_def)
  have v: "lines ?p = []"
    "writer ?p = \<lparr>encoder = unquoted_record, sink = Accepting, written = [], flushed = [],
                   unflushed = 0, failure = None\<rparr>"
    "headerUsage ?p = [True, False, False]" "order ?p = [(''phone'', 0), (''id'', 1)]"
    by (simp_all add: sample_table_value SetOrder_def SetOrder_step_def)
  have run': "calls short_sort ?q [] = Inr ?q" by simp
  have v': "lines ?q = []"
    "writer ?q = \<lparr>encoder = unquoted_record, sink = Rejecting ''disk full'', written = [],
                   flushed = [], unflushed = 0, failure = None\<rparr>"
    by (simp_all add: SetHeader_def NewCsvWriter_def csv_NewWriter_def)
  have n: "length (unquoted_record [''id'', ''name'', ''phone'']) = 14"
    by (simp add: unquoted_record_def)
  from Flush_without_rows [OF run v(1)] Flush_without_rows [OF run' v'(1)] v v' n
  show ?thesis by simp
qed

section \<open>The schema, buffered rows and masking\<close>

subsection \<open>SetHeader\<close>

lemma mark_required_upto:
  "m \<le> length hdr \<Longrightarrow> length u = length hdr \<Longrightarrow>
   fold (\<lambda>i u. if hdr ! i = req then u[i := True] else u) [0..<m] u =
     map (\<lambda>k. u ! k \<or> (k < m \<and> hdr ! k = req)) [0..<length hdr]"
proof (induction m)
  case 0
  then show ?case by (auto intro!: nth_equalityI)
next
  case (Suc m)
  let ?v = "map (\<lambda>k. u ! k \<or> (k < m \<and> hdr ! k = req)) [0..<length hdr]"
  have v: "fold (\<lambda>i u. if hdr ! i = req then u[i := True] else u) [0..<m] u = ?v"
    using Suc by simp
  have "(if hdr ! m = req then ?v[m := True] else ?v) =
        map (\<lambda>k. u ! k \<or> (k < Suc m \<and> hdr ! k = req)) [0..<length hdr]"
  proof (rule nth_equalityI)
    show "length (if hdr ! m = req then ?v[m := True] else ?v) =
          length (map (\<lambda>k. u ! k \<or> (k < Suc m \<and> hdr ! k = req)) [0..<length hdr])"
      by simp
  next
    fix i assume "i < length (if hdr ! m = req then ?v[m := True] else ?v)"
    then have i: "i < length hdr" by (simp split: if_splits)
    show "(if hdr ! m = req then ?v[m := True] else ?v) ! i =
          map (\<lambda>k. u ! k \<or> (k < Suc m \<and> hdr ! k = req)) [0..<length hdr] ! i"
    proof (cases "i = m")
      case True
      with i show ?thesis by simp
    next
      case False
      with i show ?thesis by (simp add: less_Suc_eq)
    qed
  qed
  then have step: "(if hdr ! m = req then (?v[m := True]) else ?v) =
        map (\<lambda>k. u ! k \<or> (k < Suc m \<and> hdr ! k = req)) [0..<length hdr]" .
  have "fold (\<lambda>i u. if hdr ! i = req then u[i := True] else u) [0..<Suc m] u =
        (\<lambda>i u. if hdr ! i = req then u[i := True] else u) m
          (fold (\<lambda>i u. if hdr ! i = req then u[i := True] else u) [0..<m] u)"
    by simp
  also have "\<dots> = (if hdr ! m = req then (?v[m := True]) else ?v)"
    unfolding v by (rule refl)
  finally show ?case using step by (rule trans)
qed

lemma mark_required_eq:
  "length u = length hdr \<Longrightarrow>
   mark_required hdr req u = map (\<lambda>k. u ! k \<or> hdr ! k = req) [0..<length hdr]"
  by (simp add: mark_required_def mark_required_upto cong: map_cong)

lemma fold_mark_required:
  "length u = length hdr \<Longrightarrow>
   fold (mark_required hdr) reqs u = map (\<lambda>k. u ! k \<or> hdr ! k \<in> set reqs) [0..<length hdr]"
proof (induction reqs arbitrary: u)
  case Nil
  then show ?case by (auto intro!: nth_equalityI)
next
  case (Cons r rs)
  have "length (mark_required hdr r u) = length hdr"
    using Cons.prems by (simp add: mark_required_eq)
  from Cons.IH [OF this] show ?case
    using Cons.prems by (auto simp: mark_required_eq)
qed

lemma SetHeader_usage: "headerUsage (SetHeader p hdr req) = map (\<lambda>h. h \<in> set req) hdr"
  by (auto simp: SetHeader_def fold_mark_required intro!: nth_equalityI)

subsection \<open>Buffering rows\<close>

lemma WriteCsvLine_ok:
  assumes "length val \<le> length (headerUsage p)"
  shows "\<exists>u. WriteCsvLine p val = Inr (p\<lparr>lines := lines p @ [val], headerUsage := u\<rparr>) \<and>
           length u = length (headerUsage p) \<and>
           (\<forall>k < length u. u ! k = (headerUsage p ! k \<or> (k < length val \<and> val ! k \<noteq> [])))"
proof -
  from assms have "0 + length val \<le> length (headerUsage p)" by simp
  from HeaderUsage_loop_ok [OF this] show ?thesis
    by (auto simp: WriteCsvLine_def HeaderUsage_def)
qed

lemma buffer_rows_ok:
  assumes "\<forall>r\<in>set rows. length r \<le> length (headerUsage p)"
  shows "\<exists>u. buffer_rows p rows = Inr (p\<lparr>lines := lines p @ rows, headerUsage := u\<rparr>) \<and>
           length u = length (headerUsage p) \<and>
           (\<forall>k < length u. u ! k = (headerUsage p ! k \<or> (\<exists>r\<in>set rows. k < length r \<and> r ! k \<noteq> [])))"
  using assms
proof (induction rows arbitrary: p)
  case Nil
  have "p\<lparr>lines := lines p, headerUsage := headerUsage p\<rparr> = p" by simp
  then show ?case by (intro exI [of _ "headerUsage p"]) simp
next
  case (Cons r rows)
  then have "length r \<le> length (headerUsage p)" by simp
  from WriteCsvLine_ok [OF this] obtain u1 where
    u1: "WriteCsvLine p r = Inr (p\<lparr>lines := lines p @ [r], headerUsage := u1\<rparr>)"
      "length u1 = length (headerUsage p)"
      "\<forall>k < length u1. u1 ! k = (headerUsage p ! k \<or> (k < length r \<and> r ! k \<noteq> []))"
    by blast
  let ?p1 = "p\<lparr>lines := lines p @ [r], headerUsage := u1\<rparr>"
  have "\<forall>r\<in>set rows. length r \<le> length (headerUsage ?p1)"
    using Cons.prems u1(2) by simp
  from Cons.IH [OF this] obtain u where
    u: "buffer_rows ?p1 rows = Inr (?p1\<lparr>lines := lines ?p1 @ rows, headerUsage := u\<rparr>)"
      "length u = length u1"
      "\<forall>k < length u. u ! k = (u1 ! k \<or> (\<exists>r\<in>set rows. k < length r \<and> r ! k \<noteq> []))"
    by auto
  have "buffer_rows p (r # rows) = Inr (p\<lparr>lines := lines p @ r # rows, headerUsage := u\<rparr>)"
    using u1(1) u(1) by simp
  moreover have "\<forall>k < length u. u ! k =
      (headerUsage p ! k \<or> (\<exists>r'\<in>set (r # rows). k < length r' \<and> r' ! k \<noteq> []))"
    using u(2,3) u1(3) by auto
  ultimately show ?case using u(2) u1(2) by (intro exI [of _ u]) simp
qed

subsection \<open>Masking\<close>

lemma maskLine_cut_eq:
  "length pre = i - j \<Longrightarrow> j \<le> i \<Longrightarrow> length u \<le> length rest \<Longrightarrow>
   maskLine_cut i j u (pre @ rest) = Inr (pre @ kept u rest @ drop (length u) rest)"
proof (induction u arbitrary: i j pre rest)
  case Nil
  then show ?case by (simp add: kept_def)
next
  case (Cons h hs)
  then obtain x xs where rest: "rest = x # xs" by (cases rest) auto
  show ?case
  proof (cases h)
    case True
    have "maskLine_cut (i + 1) j hs ((pre @ [x]) @ xs) =
          Inr ((pre @ [x]) @ kept hs xs @ drop (length hs) xs)"
      using Cons.prems rest by (intro Cons.IH) auto
    with True rest show ?thesis by (simp add: kept_def)
  next
    case False
    have "maskLine_cut (i + 1) (j + 1) hs (pre @ xs) =
          Inr (pre @ kept hs xs @ drop (length hs) xs)"
      using Cons.prems rest by (intro Cons.IH) auto
    with False rest Cons.prems(1) show ?thesis by (simp add: kept_def)
  qed
qed

lemma maskLine_plain:
  assumes "order p = []" and "length val = length (headerUsage p)"
  shows "maskLine p val = Inr (kept (headerUsage p) val)"
  using maskLine_cut_eq [of "[]" 0 0 "headerUsage p" val] assms
  by (simp add: maskLine_def)

lemma kept_nths: "length u = length val \<Longrightarrow> kept u val = nths val {i. i < length u \<and> u ! i}"
proof (induction u arbitrary: val)
  case Nil
  then show ?case by (simp add: kept_def)
next
  case (Cons h hs)
  then obtain x xs where val: "val = x # xs" by (cases val) auto
  with Cons.prems have l: "length hs = length xs" by simp
  have "{j. Suc j < Suc (length hs) \<and> (h # hs) ! Suc j} = {i. i < length hs \<and> hs ! i}"
    by auto
  with Cons.IH [OF l] val show ?case
    by (auto simp: kept_def nths_Cons)
qed

subsection \<open>Fields that the calls leave alone\<close>

lemma SetOrder_fields [simp]:
  "lines (SetOrder p ord) = lines p" "writer (SetOrder p ord) = writer p"
  "headers (SetOrder p ord) = headers p" "headerUsage (SetOrder p ord) = headerUsage p"
  by (simp_all add: SetOrder_def)

lemma SetOrder_Nil [simp]: "SetOrder p [] = p"
  by (simp add: SetOrder_def)

lemma SetHeader_fields [simp]:
  "lines (SetHeader p hdr req) = lines p" "writer (SetHeader p hdr req) = writer p"
  "order (SetHeader p hdr req) = order p"
  by (simp_all add: SetHeader_def)

lemma SetHeader_usage_nth:
  "k < length hdr \<Longrightarrow> headerUsage (SetHeader p hdr req) ! k = (hdr ! k \<in> set req)"
  by (simp add: SetHeader_usage)

lemma csv_NewWriter_fields [simp]:
  "encoder (csv_NewWriter enc file) = enc" "sink (csv_NewWriter enc file) = file"
  "written (csv_NewWriter enc file) = []" "flushed (csv_NewWriter enc file) = []"
  "unflushed (csv_NewWriter enc file) = 0" "failure (csv_NewWriter enc file) = None"
  by (simp_all add: csv_NewWriter_def)

lemma NewCsvWriter_fields [simp]:
  "lines (NewCsvWriter enc file) = []" "order (NewCsvWriter enc file) = []"
  "writer (NewCsvWriter enc file) = csv_NewWriter enc file"
  by (simp_all add: NewCsvWriter_def)

subsection \<open>Writing records\<close>

lemma csv_Write_accepting:
  "sink w = Accepting \<Longrightarrow> failure w = None \<Longrightarrow> csv_Write w r = (None, taken w [r])"
  by (simp add: csv_Write_def taken_def csv_bytes_def)

lemma csv_Write_rejecting:
  "sink w = Rejecting reason \<Longrightarrow> failure w = None \<Longrightarrow>
   csv_Write w r =
     (if unflushed w + length (encoder w r) \<le> 4096 then (None, taken w [r])
      else (Some reason, w\<lparr>failure := Some reason\<rparr>))"
  by (simp add: csv_Write_def taken_def csv_bytes_def)

lemma taken_fields [simp]:
  "encoder (taken w recs) = encoder w" "sink (taken w recs) = sink w"
  "failure (taken w recs) = failure w" "flushed (taken w recs) = flushed w"
  "written (taken w recs) = written w @ recs"
  "unflushed (taken w recs) = unflushed w + length (csv_bytes (encoder w) recs)"
  by (simp_all add: taken_def)

lemma taken_Nil [simp]: "taken w [] = w"
  by (simp add: taken_def csv_bytes_def)

lemma taken_taken: "taken (taken w a) b = taken w (a @ b)"
  by (simp add: taken_def csv_bytes_def)

lemma csv_bytes_Cons:
  "length (csv_bytes enc (r # rs)) = length (enc r) + length (csv_bytes enc rs)"
  by (simp add: csv_bytes_def)

lemma csv_Flush_accepting:
  "sink w = Accepting \<Longrightarrow> failure w = None \<Longrightarrow>
   csv_Flush w = w\<lparr>flushed := written w, unflushed := 0\<rparr>"
  by (simp add: csv_Flush_def)

lemma csv_Flush_rejecting:
  "sink w = Rejecting reason \<Longrightarrow> flushed (csv_Flush w) = flushed w"
  by (simp add: csv_Flush_def split: option.splits)

lemma maskLine_writer [simp]: "maskLine (p\<lparr>writer := w\<rparr>) val = maskLine p val"
  by (simp add: maskLine_def)

lemma maskLine_lines [simp]: "maskLine (p\<lparr>lines := l\<rparr>) val = maskLine p val"
  by (simp add: maskLine_def)

lemma write_lines_accepting:
  assumes "\<forall>v\<in>set vs. maskLine p v = Inr (m v)" and "sink (writer p) = Accepting"
    and "failure (writer p) = None"
  shows "write_lines p vs = Inr (p\<lparr>writer := taken (writer p) (map m vs)\<rparr>)"
  using assms
proof (induction vs arbitrary: p)
  case Nil
  then show ?case by simp
next
  case (Cons v vs)
  let ?p1 = "p\<lparr>writer := taken (writer p) [m v]\<rparr>"
  have step: "WriteCsvLineRaw p v = Inr ?p1"
    using Cons.prems by (simp add: WriteCsvLineRaw_def csv_Write_accepting)
  have "write_lines ?p1 vs = Inr (?p1\<lparr>writer := taken (writer ?p1) (map m vs)\<rparr>)"
    using Cons.prems by (intro Cons.IH) simp_all
  with step show ?case by (simp add: taken_taken)
qed

lemma write_lines_rejecting:
  assumes "\<forall>v\<in>set vs. maskLine p v = Inr (m v)" and "sink (writer p) = Rejecting reason"
    and "failure (writer p) = None" and "unflushed (writer p) \<le> 4096"
  shows "write_lines p vs =
           (if unflushed (writer p) + length (csv_bytes (encoder (writer p)) (map m vs)) \<le> 4096
            then Inr (p\<lparr>writer := taken (writer p) (map m vs)\<rparr>)
            else Inl (PanicString reason))"
  using assms
proof (induction vs arbitrary: p)
  case Nil
  then show ?case by (simp add: csv_bytes_def)
next
  case (Cons v vs)
  let ?n = "unflushed (writer p) + length (encoder (writer p) (m v))"
  show ?case
  proof (cases "?n \<le> 4096")
    case False
    then have "WriteCsvLineRaw p v = Inl (PanicString reason)"
      using Cons.prems by (simp add: WriteCsvLineRaw_def csv_Write_rejecting)
    with False show ?thesis by (simp add: csv_bytes_Cons)
  next
    case True
    let ?p1 = "p\<lparr>writer := taken (writer p) [m v]\<rparr>"
    have step: "WriteCsvLineRaw p v = Inr ?p1"
      using Cons.prems True by (simp add: WriteCsvLineRaw_def csv_Write_rejecting)
    have "write_lines ?p1 vs =
        (if unflushed (writer ?p1) + length (csv_bytes (encoder (writer ?p1)) (map m vs)) \<le> 4096
         then Inr (?p1\<lparr>writer := taken (writer ?p1) (map m vs)\<rparr>)
         else Inl (PanicString reason))"
      using Cons.prems True by (intro Cons.IH) (simp_all add: csv_bytes_def)
    with step show ?thesis by (simp add: taken_taken csv_bytes_def)
  qed
qed

lemma WriteHeader_as_row: "WriteHeader p = WriteCsvLineRaw p (headers p)"
  by (simp add: WriteHeader_def WriteCsvLineRaw_def)

lemma Flush_rows:
  "lines p \<noteq> [] \<Longrightarrow>
   Flush p = (case write_lines p (headers p # lines p) of
                Inl e \<Rightarrow> Inl e
              | Inr p2 \<Rightarrow> Inr ((FlushFile p2)\<lparr>lines := []\<rparr>))"
proof -
  have l: "lines p1 = lines p" if "WriteCsvLineRaw p (headers p) = Inr p1" for p1
    using that by (auto simp: WriteCsvLineRaw_def split: sum.splits option.splits prod.splits)
  assume "lines p \<noteq> []"
  then show ?thesis
    by (auto simp: Flush_def WriteHeader_as_row l split: sum.splits)
qed

text \<open>\<^verbatim>\<open>Flush\<close> of buffered rows, over a stream that accepts and over one that rejects.\<close>

lemma Flush_accepting:
  assumes "lines p \<noteq> []" and "\<forall>v\<in>set (headers p # lines p). maskLine p v = Inr (m v)"
    and "sink (writer p) = Accepting" and "failure (writer p) = None"
  shows "\<exists>w'. Flush p = Inr (p\<lparr>writer := w', lines := []\<rparr>) \<and>
           flushed w' = written (writer p) @ map m (headers p # lines p)"
proof -
  let ?w = "taken (writer p) (map m (headers p # lines p))"
  have "write_lines p (headers p # lines p) = Inr (p\<lparr>writer := ?w\<rparr>)"
    using assms(2-4) by (rule write_lines_accepting)
  moreover have "csv_Flush ?w = ?w\<lparr>flushed := written ?w, unflushed := 0\<rparr>"
    using assms(3,4) by (intro csv_Flush_accepting) simp_all
  ultimately show ?thesis
    using assms(1)
    by (intro exI [of _ "csv_Flush ?w"]) (simp add: Flush_rows FlushFile_def)
qed

lemma Flush_rejecting:
  assumes "lines p \<noteq> []" and "\<forall>v\<in>set (headers p # lines p). maskLine p v = Inr (m v)"
    and "sink (writer p) = Rejecting reason" and "failure (writer p) = None"
    and "unflushed (writer p) \<le> 4096"
  shows "if unflushed (writer p) +
              length (csv_bytes (encoder (writer p)) (map m (headers p # lines p))) \<le> 4096
         then \<exists>w'. Flush p = Inr (p\<lparr>writer := w', lines := []\<rparr>) \<and> flushed w' = flushed (writer p)
         else Flush p = Inl (PanicString reason)"
proof -
  let ?w = "taken (writer p) (map m (headers p # lines p))"
  have run: "write_lines p (headers p # lines p) =
      (if unflushed (writer p) +
            length (csv_bytes (encoder (writer p)) (map m (headers p # lines p))) \<le> 4096
       then Inr (p\<lparr>writer := ?w\<rparr>) else Inl (PanicString reason))"
    using assms(2-5) by (rule write_lines_rejecting)
  have "flushed (csv_Flush ?w) = flushed (writer p)"
    using assms(3) csv_Flush_rejecting [of ?w reason] by simp
  with run assms(1) show ?thesis
    by (auto simp: Flush_rows FlushFile_def simp del: write_lines.simps
        intro!: exI [of _ "csv_Flush ?w"])
qed

lemma Flush_no_rows_accepting:
  assumes "lines p = []" and "sink (writer p) = Accepting" and "failure (writer p) = None"
  shows "\<exists>w'. Flush p = Inr (p\<lparr>writer := w'\<rparr>) \<and> flushed w' = written (writer p) @ [headers p]"
  using assms
  by (intro exI [of _ "csv_Flush (taken (writer p) [headers p])"])
    (simp add: Flush_def csv_Write_accepting csv_Flush_accepting)

lemma Flush_no_rows_rejecting:
  assumes "lines p = []" and "sink (writer p) = Rejecting reason" and "failure (writer p) = None"
  shows "if unflushed (writer p) + length (csv_bytes (encoder (writer p)) [headers p]) \<le> 4096
         then \<exists>w'. Flush p = Inr (p\<lparr>writer := w'\<rparr>) \<and> flushed w' = flushed (writer p)
         else Flush p = Inl (PanicString reason)"
  using assms csv_Flush_rejecting [of "taken (writer p) [headers p]" reason]
  by (auto simp: Flush_def csv_Write_rejecting csv_bytes_def
      intro!: exI [of _ "csv_Flush (taken (writer p) [headers p])"])

section \<open>A preferred column order\<close>

subsection \<open>The order map\<close>

lemma update_fresh: "k \<notin> fst ` set al \<Longrightarrow> AList.update k v al = al @ [(k, v)]"
  by (induction al) auto

lemma SetOrder_fold:
  assumes "distinct (filter P ord)" and "set (filter P ord) \<inter> fst ` set m = {}"
    and "\<And>name. (map_of hm name \<noteq> None) = P name"
  shows "fold (SetOrder_step hm) ord (a, m) =
           (a + length (filter P ord), m @ zip (filter P ord) [a..<a + length (filter P ord)])"
  using assms(1,2)
proof (induction ord arbitrary: a m)
  case Nil
  then show ?case by simp
next
  case (Cons name ord)
  have step: "SetOrder_step hm name (a, m) =
      (if P name then (a + 1, AList.update name a m) else (a, m))"
    unfolding SetOrder_step_def assms(3) by simp
  show ?case
  proof (cases "P name")
    case False
    with Cons show ?thesis by (simp add: step)
  next
    case True
    with Cons.prems have fresh: "name \<notin> fst ` set m" and d: "distinct (filter P ord)"
      and nin: "name \<notin> set (filter P ord)"
      by auto
    have disj: "set (filter P ord) \<inter> fst ` set (m @ [(name, a)]) = {}"
      using Cons.prems(2) True nin by auto
    have "fold (SetOrder_step hm) (name # ord) (a, m) =
          fold (SetOrder_step hm) ord (Suc a, m @ [(name, a)])"
      using True fresh by (simp add: step update_fresh)
    also have "\<dots> = (Suc a + length (filter P ord),
        (m @ [(name, a)]) @ zip (filter P ord) [Suc a..<Suc a + length (filter P ord)])"
      by (rule Cons.IH [OF d disj])
    finally have run: "fold (SetOrder_step hm) (name # ord) (a, m) =
        (Suc a + length (filter P ord),
         (m @ [(name, a)]) @ zip (filter P ord) [Suc a..<Suc a + length (filter P ord)])" .
    have "[a..<a + length (filter P (name # ord))] =
          a # [Suc a..<Suc a + length (filter P ord)]"
      using True by (simp add: upt_conv_Cons del: upt_Suc)
    with run True show ?thesis by (simp del: upt_Suc)
  qed
qed

lemma headersMap_keys:
  "fst ` set (fold (\<lambda>i m. AList.update (val ! i) i m) is m) = (\<lambda>i. val ! i) ` set is \<union> fst ` set m"
  by (induction "is" arbitrary: m) (auto simp: dom_update)

lemma headersMap_SetHeader:
  "(map_of (headersMap (SetHeader (NewCsvWriter enc file) hdr req)) name \<noteq> None) = (name \<in> set hdr)"
proof -
  have "set (map (\<lambda>i. hdr ! i) [0..<length hdr]) = set hdr"
    by (simp only: map_nth)
  then have "(\<lambda>i. hdr ! i) ` set [0..<length hdr] = set hdr"
    by (simp only: set_map)
  then have "fst ` set (headersMap (SetHeader (NewCsvWriter enc file) hdr req)) = set hdr"
    by (simp add: SetHeader_def NewCsvWriter_def headersMap_keys)
  then show ?thesis
    by (metis map_of_eq_None_iff)
qed

lemma order_SetOrder:
  assumes "distinct ord"
  shows "order (SetOrder (SetHeader (NewCsvWriter enc file) hdr req) ord) =
           zip (filter (\<lambda>name. name \<in> set hdr) ord)
             [0..<length (filter (\<lambda>name. name \<in> set hdr) ord)]"
proof -
  have "fold (SetOrder_step (headersMap (SetHeader (NewCsvWriter enc file) hdr req))) ord (0, []) =
        (0 + length (filter (\<lambda>name. name \<in> set hdr) ord),
         [] @ zip (filter (\<lambda>name. name \<in> set hdr) ord)
                [0..<0 + length (filter (\<lambda>name. name \<in> set hdr) ord)])"
    using assms by (intro SetOrder_fold headersMap_SetHeader) simp_all
  then show ?thesis by (simp add: SetOrder_def)
qed

subsection \<open>Positions in the schema\<close>

lemma index_of_nth: "distinct xs \<Longrightarrow> i < length xs \<Longrightarrow> index_of xs (xs ! i) = i"
proof (induction xs arbitrary: i)
  case Nil
  then show ?case by simp
next
  case (Cons x xs)
  then show ?case by (cases i) auto
qed

lemma index_of_less: "x \<in> set xs \<Longrightarrow> index_of xs x < length xs"
  by (induction xs) auto

lemma nth_index_of: "x \<in> set xs \<Longrightarrow> xs ! index_of xs x = x"
  by (induction xs) auto

lemma map_of_zip_upt_Some:
  "map_of (zip named [0..<length named]) name = Some t \<Longrightarrow> t < length named \<and> named ! t = name"
  by (auto dest!: map_of_SomeD simp: set_zip)

lemma map_of_zip_upt_None:
  "map_of (zip named [0..<length named]) name = None \<Longrightarrow> name \<notin> set named"
  by simp

lemma maskLine_order_run:
  assumes dh: "distinct hdr" and dn: "distinct named" and sub: "set named \<subseteq> set hdr"
    and lv: "length val = length hdr" and lu: "length u = length hdr"
  shows "i \<le> length hdr \<Longrightarrow> length A = length named \<Longrightarrow>
    maskLine_order (zip named [0..<length named]) hdr val i (drop i u) (A @ B) =
      Inr (map (\<lambda>t. if i \<le> index_of hdr (named ! t) then val ! index_of hdr (named ! t) else A ! t)
             [0..<length named]
           @ B @ map (\<lambda>k. val ! k) (filter (\<lambda>k. hdr ! k \<notin> set named \<and> u ! k) [i..<length hdr]))"
proof (induction "length hdr - i" arbitrary: i A B)
  case 0
  then have i: "i = length hdr" by simp
  have "\<forall>t < length named. index_of hdr (named ! t) < length hdr"
    using sub by (auto intro!: index_of_less)
  then have "map (\<lambda>t. if i \<le> index_of hdr (named ! t) then val ! index_of hdr (named ! t) else A ! t)
             [0..<length named] = map (\<lambda>t. A ! t) [0..<length A]"
    using 0(3) i by (intro map_cong) auto
  then have "map (\<lambda>t. if i \<le> index_of hdr (named ! t) then val ! index_of hdr (named ! t) else A ! t)
             [0..<length named] = A"
    by (simp only: map_nth)
  with i lu show ?case by simp
next
  case (Suc d)
  have i: "i < length hdr" using Suc(2) by simp
  then have dr: "drop i u = u ! i # drop (Suc i) u"
    using lu by (simp add: Cons_nth_drop_Suc)
  have up: "[i..<length hdr] = i # [Suc i..<length hdr]"
    using i by (simp add: upt_conv_Cons)
  have d': "d = length hdr - Suc i" using Suc(2) by simp
  have idx: "index_of hdr (hdr ! i) = i" using dh i by (rule index_of_nth)
  show ?case
  proof (cases "map_of (zip named [0..<length named]) (hdr ! i)")
    case (Some t)
    have t: "t < length named" "named ! t = hdr ! i"
      using map_of_zip_upt_Some [OF Some] by simp_all
    have inn: "hdr ! i \<in> set named" using t by (metis nth_mem)
    have other: "index_of hdr (named ! s) \<noteq> i" if "s < length named" "s \<noteq> t" for s
    proof
      assume e: "index_of hdr (named ! s) = i"
      have "named ! s \<in> set hdr" using that(1) sub by auto
      then have "hdr ! index_of hdr (named ! s) = named ! s" by (rule nth_index_of)
      with e t(2) have "named ! s = named ! t" by simp
      with dn that t(1) show False by (simp add: nth_eq_iff_index_eq)
    qed
    have step: "maskLine_order (zip named [0..<length named]) hdr val i (drop i u) (A @ B) =
        maskLine_order (zip named [0..<length named]) hdr val (Suc i) (drop (Suc i) u)
          (A[t := val ! i] @ B)"
      using Some i lv t(1) Suc(4) by (simp add: dr list_update_append)
    have "maskLine_order (zip named [0..<length named]) hdr val (Suc i) (drop (Suc i) u)
          (A[t := val ! i] @ B) =
        Inr (map (\<lambda>s. if Suc i \<le> index_of hdr (named ! s) then val ! index_of hdr (named ! s)
                       else A[t := val ! i] ! s) [0..<length named]
             @ B @ map (\<lambda>k. val ! k)
                     (filter (\<lambda>k. hdr ! k \<notin> set named \<and> u ! k) [Suc i..<length hdr]))"
      using i Suc(4) by (intro Suc(1) [OF d']) simp_all
    moreover have "map (\<lambda>s. if Suc i \<le> index_of hdr (named ! s) then val ! index_of hdr (named ! s)
                       else A[t := val ! i] ! s) [0..<length named] =
        map (\<lambda>s. if i \<le> index_of hdr (named ! s) then val ! index_of hdr (named ! s) else A ! s)
          [0..<length named]"
    proof (rule map_cong [OF refl])
      fix s assume "s \<in> set [0..<length named]"
      then have s: "s < length named" by simp
      show "(if Suc i \<le> index_of hdr (named ! s) then val ! index_of hdr (named ! s)
             else A[t := val ! i] ! s) =
            (if i \<le> index_of hdr (named ! s) then val ! index_of hdr (named ! s) else A ! s)"
      proof (cases "s = t")
        case True
        with t idx Suc(4) show ?thesis by simp
      next
        case False
        from other [OF s False] have "(Suc i \<le> index_of hdr (named ! s)) = (i \<le> index_of hdr (named ! s))"
          by arith
        with False show ?thesis by simp
      qed
    qed
    ultimately show ?thesis using step inn by (simp add: up)
  next
    case None
    then have nin: "hdr ! i \<notin> set named" by (rule map_of_zip_upt_None)
    have other: "index_of hdr (named ! s) \<noteq> i" if "s < length named" for s
    proof
      assume e: "index_of hdr (named ! s) = i"
      have "named ! s \<in> set hdr" using that sub by auto
      then have "hdr ! index_of hdr (named ! s) = named ! s" by (rule nth_index_of)
      with e nin that show False by (metis nth_mem)
    qed
    have same: "map (\<lambda>s. if Suc i \<le> index_of hdr (named ! s) then val ! index_of hdr (named ! s)
                       else A ! s) [0..<length named] =
        map (\<lambda>s. if i \<le> index_of hdr (named ! s) then val ! index_of hdr (named ! s) else A ! s)
          [0..<length named]"
    proof (rule map_cong [OF refl])
      fix s assume "s \<in> set [0..<length named]"
      then have "index_of hdr (named ! s) \<noteq> i" using other by simp
      then have "(Suc i \<le> index_of hdr (named ! s)) = (i \<le> index_of hdr (named ! s))"
        by arith
      then show "(if Suc i \<le> index_of hdr (named ! s) then val ! index_of hdr (named ! s)
             else A ! s) =
            (if i \<le> index_of hdr (named ! s) then val ! index_of hdr (named ! s) else A ! s)"
        by simp
    qed
    show ?thesis
    proof (cases "u ! i")
      case True
      have step: "maskLine_order (zip named [0..<length named]) hdr val i (drop i u) (A @ B) =
          maskLine_order (zip named [0..<length named]) hdr val (Suc i) (drop (Suc i) u)
            (A @ (B @ [val ! i]))"
        using i lv True by (simp add: dr None)
      have "maskLine_order (zip named [0..<length named]) hdr val (Suc i) (drop (Suc i) u)
            (A @ (B @ [val ! i])) =
          Inr (map (\<lambda>s. if Suc i \<le> index_of hdr (named ! s) then val ! index_of hdr (named ! s)
                         else A ! s) [0..<length named]
               @ (B @ [val ! i]) @ map (\<lambda>k. val ! k)
                       (filter (\<lambda>k. hdr ! k \<notin> set named \<and> u ! k) [Suc i..<length hdr]))"
        using i Suc(4) by (intro Suc(1) [OF d']) simp_all
      with step same nin True show ?thesis by (simp add: up)
    next
      case False
      have step: "maskLine_order (zip named [0..<length named]) hdr val i (drop i u) (A @ B) =
          maskLine_order (zip named [0..<length named]) hdr val (Suc i) (drop (Suc i) u) (A @ B)"
        using i lv False by (simp add: dr None)
      have "maskLine_order (zip named [0..<length named]) hdr val (Suc i) (drop (Suc i) u) (A @ B) =
          Inr (map (\<lambda>s. if Suc i \<le> index_of hdr (named ! s) then val ! index_of hdr (named ! s)
                         else A ! s) [0..<length named]
               @ B @ map (\<lambda>k. val ! k)
                       (filter (\<lambda>k. hdr ! k \<notin> set named \<and> u ! k) [Suc i..<length hdr]))"
        using i Suc(4) by (intro Suc(1) [OF d']) simp_all
      with step same False show ?thesis by (simp add: up)
    qed
  qed
qed

lemma kept_positions:
  "length u = length val \<Longrightarrow> kept u val = map (\<lambda>k. val ! k) (filter (\<lambda>k. u ! k) [0..<length val])"
proof (induction val arbitrary: u rule: rev_induct)
  case Nil
  then show ?case by (simp add: kept_def)
next
  case (snoc v vs)
  then obtain b bs where u: "u = bs @ [b]" and l: "length bs = length vs"
    by (cases u rule: rev_cases) auto
  have "map (\<lambda>k. (vs @ [v]) ! k) (filter (\<lambda>k. (bs @ [b]) ! k) [0..<length vs]) =
        map (\<lambda>k. vs ! k) (filter (\<lambda>k. bs ! k) [0..<length vs])"
  proof -
    have A: "filter (\<lambda>k. (bs @ [b]) ! k) [0..<length vs] = filter (\<lambda>k. bs ! k) [0..<length vs]"
      using l by (intro filter_cong) (auto simp: nth_append)
    have B: "map (\<lambda>k. (vs @ [v]) ! k) (filter (\<lambda>k. bs ! k) [0..<length vs]) =
        map (\<lambda>k. vs ! k) (filter (\<lambda>k. bs ! k) [0..<length vs])"
      by (intro map_cong) (auto simp: nth_append)
    show ?thesis by (simp only: A B)
  qed
  moreover have "kept (bs @ [b]) (vs @ [v]) = kept bs vs @ (if b then [v] else [])"
    using l by (simp add: kept_def)
  ultimately show ?case
    using snoc.IH [OF l] u l by (simp add: nth_append)
qed

text \<open>The masked line, where the order map is the one \<^verbatim>\<open>SetOrder\<close> makes from \<open>ord\<close>.\<close>

lemma maskLine_arranged:
  assumes o: "order p = zip (filter (\<lambda>name. name \<in> set hdr) ord)
                          [0..<length (filter (\<lambda>name. name \<in> set hdr) ord)]"
    and h: "headers p = hdr" and lu: "length (headerUsage p) = length hdr"
    and dh: "distinct hdr" and d: "distinct ord" and lv: "length val = length hdr"
  shows "maskLine p val = Inr (arranged hdr ord (\<lambda>k. headerUsage p ! k) val)"
proof -
  let ?named = "filter (\<lambda>name. name \<in> set hdr) ord"
  let ?u = "headerUsage p"
  have unnamed: "(hdr ! k \<notin> set ?named) = (hdr ! k \<notin> set ord)" if "k < length hdr" for k
    using that by auto
  then have f: "filter (\<lambda>k. hdr ! k \<notin> set ?named \<and> ?u ! k) [0..<length hdr] =
      filter (\<lambda>k. hdr ! k \<notin> set ord \<and> ?u ! k) [0..<length hdr]"
    by (intro filter_cong) auto
  show ?thesis
  proof (cases "?named = []")
    case True
    then have "order p = []" using o by simp
    then have "maskLine p val = Inr (kept ?u val)"
      using lv lu by (simp add: maskLine_plain)
    also have "kept ?u val = map (\<lambda>k. val ! k) (filter (\<lambda>k. ?u ! k) [0..<length val])"
      using lv lu by (simp add: kept_positions)
    also have "filter (\<lambda>k. ?u ! k) [0..<length val] =
        filter (\<lambda>k. hdr ! k \<notin> set ?named \<and> ?u ! k) [0..<length hdr]"
      using True lv by simp
    finally show ?thesis using True f by (simp add: arranged_def)
  next
    case False
    have dn: "distinct ?named" using d by simp
    have sub: "set ?named \<subseteq> set hdr" by auto
    have "maskLine_order (zip ?named [0..<length ?named]) hdr val 0 (drop 0 ?u)
            (replicate (length ?named) [] @ []) =
          Inr (map (\<lambda>t. if 0 \<le> index_of hdr (?named ! t) then val ! index_of hdr (?named ! t)
                         else replicate (length ?named) [] ! t) [0..<length ?named]
               @ [] @ map (\<lambda>k. val ! k)
                        (filter (\<lambda>k. hdr ! k \<notin> set ?named \<and> ?u ! k) [0..<length hdr]))"
      by (rule maskLine_order_run [OF dh dn sub lv lu]) simp_all
    moreover have "map (\<lambda>t. val ! index_of hdr (?named ! t)) [0..<length ?named] =
        map (\<lambda>name. val ! index_of hdr name) ?named"
      by (intro nth_equalityI) simp_all
    ultimately have "maskLine_order (zip ?named [0..<length ?named]) hdr val 0 ?u
            (replicate (length ?named) []) =
          Inr (map (\<lambda>name. val ! index_of hdr name) ?named @
               map (\<lambda>k. val ! k) (filter (\<lambda>k. hdr ! k \<notin> set ord \<and> ?u ! k) [0..<length hdr]))"
      using f by simp
    then show ?thesis
      using False o h by (simp add: maskLine_def arranged_def)
  qed
qed

lemma maskLine_unordered:
  assumes "order p = []" and "length (headerUsage p) = length (headers p)"
    and "length val = length (headers p)"
  shows "maskLine p val = Inr (arranged (headers p) [] (\<lambda>k. headerUsage p ! k) val)"
proof -
  have "maskLine p val = Inr (kept (headerUsage p) val)"
    using assms by (simp add: maskLine_plain)
  also have "kept (headerUsage p) val =
      map (\<lambda>k. val ! k) (filter (\<lambda>k. headerUsage p ! k) [0..<length val])"
    using assms by (simp add: kept_positions)
  finally show ?thesis using assms(3) by (simp add: arranged_def)
qed

lemma arranged_cong:
  "(\<And>k. k < length hdr \<Longrightarrow> used k = used' k) \<Longrightarrow>
   arranged hdr ord used val = arranged hdr ord used' val"
proof -
  assume a: "\<And>k. k < length hdr \<Longrightarrow> used k = used' k"
  have "filter (\<lambda>k. hdr ! k \<notin> set ord \<and> used k) [0..<length hdr] =
        filter (\<lambda>k. hdr ! k \<notin> set ord \<and> used' k) [0..<length hdr]"
    by (intro filter_cong) (auto simp: a)
  then show ?thesis by (simp add: arranged_def)
qed

lemma arranged_header_mem:
  assumes "distinct hdr" and "k < length hdr"
  shows "(hdr ! k \<in> set (arranged hdr ord used hdr)) = (hdr ! k \<in> set ord \<or> used k)"
proof -
  have a: "set (map (\<lambda>name. hdr ! index_of hdr name) (filter (\<lambda>name. name \<in> set hdr) ord)) =
      set ord \<inter> set hdr"
    by (auto simp: nth_index_of image_iff)
  have b: "(hdr ! k \<in> set (map (\<lambda>j. hdr ! j)
              (filter (\<lambda>j. hdr ! j \<notin> set ord \<and> used j) [0..<length hdr]))) =
      (hdr ! k \<notin> set ord \<and> used k)"
    using assms by (auto simp: nth_eq_iff_index_eq)
  have "hdr ! k \<in> set hdr" using assms(2) by simp
  then show ?thesis
    unfolding arranged_def set_append Un_iff a b by auto
qed

text \<open>
  Claim C6, amended. With an order set before any output, a schema and an order without
  repeated names, and a line with one cell for every column of the schema: the masked
  line, header or row, has first the cells of all columns named in the order that are in
  the schema, in the order given and whether they are used or not, and then the cells of
  the used columns that are not named, in the order of the schema. Only the columns that
  are not named are dropped when unused.
\<close>

theorem named_columns_first:
  assumes dh: "distinct hdr" and d: "distinct ord"
    and lv: "length val = length hdr" and lu: "length u = length hdr"
  shows "maskLine ((SetOrder (SetHeader (NewCsvWriter enc file) hdr req) ord)
                     \<lparr>headerUsage := u, lines := ls, writer := w\<rparr>) val =
           Inr (map (\<lambda>name. val ! index_of hdr name) (filter (\<lambda>name. name \<in> set hdr) ord) @
                map (\<lambda>k. val ! k) (filter (\<lambda>k. hdr ! k \<notin> set ord \<and> u ! k) [0..<length hdr]))"
proof -
  let ?p = "(SetOrder (SetHeader (NewCsvWriter enc file) hdr req) ord)
              \<lparr>headerUsage := u, lines := ls, writer := w\<rparr>"
  have o: "order ?p = zip (filter (\<lambda>name. name \<in> set hdr) ord)
                        [0..<length (filter (\<lambda>name. name \<in> set hdr) ord)]"
    using order_SetOrder [OF d] by simp
  have h: "headers ?p = hdr" and hu: "length (headerUsage ?p) = length hdr"
    using lu by simp_all
  from maskLine_arranged [OF o h hu dh d lv] show ?thesis
    by (simp add: arranged_def)
qed

section \<open>Buffered and streamed tables\<close>

lemma probe_rows_ok:
  assumes "\<forall>r\<in>set rows. length r \<le> length (headerUsage p)"
  shows "\<exists>u. probe_rows p rows = Inr (p\<lparr>headerUsage := u\<rparr>) \<and>
           length u = length (headerUsage p) \<and>
           (\<forall>k < length u. u ! k = (headerUsage p ! k \<or> (\<exists>r\<in>set rows. k < length r \<and> r ! k \<noteq> [])))"
  using assms
proof (induction rows arbitrary: p)
  case Nil
  show ?case by (intro exI [of _ "headerUsage p"]) simp
next
  case (Cons r rows)
  then have "0 + length r \<le> length (headerUsage p)" by simp
  from HeaderUsage_loop_ok [OF this] obtain u1 where
    u1: "HeaderUsage p r = Inr (p\<lparr>headerUsage := u1\<rparr>)"
      "length u1 = length (headerUsage p)"
      "\<forall>k < length u1. u1 ! k = (headerUsage p ! k \<or> (k < length r \<and> r ! k \<noteq> []))"
    by (auto simp: HeaderUsage_def)
  let ?p1 = "p\<lparr>headerUsage := u1\<rparr>"
  have "\<forall>r\<in>set rows. length r \<le> length (headerUsage ?p1)"
    using Cons.prems u1(2) by simp
  from Cons.IH [OF this] obtain u where
    u: "probe_rows ?p1 rows = Inr (?p1\<lparr>headerUsage := u\<rparr>)"
      "length u = length u1"
      "\<forall>k < length u. u ! k = (u1 ! k \<or> (\<exists>r\<in>set rows. k < length r \<and> r ! k \<noteq> []))"
    by auto
  have "probe_rows p (r # rows) = Inr (p\<lparr>headerUsage := u\<rparr>)"
    using u1(1) u(1) by simp
  moreover have "\<forall>k < length u. u ! k =
      (headerUsage p ! k \<or> (\<exists>r'\<in>set (r # rows). k < length r' \<and> r' ! k \<noteq> []))"
    using u(2,3) u1(3) by auto
  ultimately show ?case using u(2) u1(2) by (intro exI [of _ u]) simp
qed

lemma WriteCsvLineRaw_lines:
  "WriteCsvLineRaw (p\<lparr>lines := l\<rparr>) v =
     (case WriteCsvLineRaw p v of Inl e \<Rightarrow> Inl e | Inr q \<Rightarrow> Inr (q\<lparr>lines := l\<rparr>))"
  by (auto simp: WriteCsvLineRaw_def split: sum.splits option.splits prod.splits)

lemma write_lines_lines:
  "write_lines (p\<lparr>lines := l\<rparr>) vs =
     (case write_lines p vs of Inl e \<Rightarrow> Inl e | Inr q \<Rightarrow> Inr (q\<lparr>lines := l\<rparr>))"
  by (induction vs arbitrary: p) (auto simp: WriteCsvLineRaw_lines split: sum.splits)

lemma WriteCsvLineRaw_keeps_lines: "WriteCsvLineRaw p v = Inr q \<Longrightarrow> lines q = lines p"
  by (auto simp: WriteCsvLineRaw_def split: sum.splits option.splits prod.splits)

lemma write_lines_keeps_lines: "write_lines p vs = Inr q \<Longrightarrow> lines q = lines p"
  by (induction vs arbitrary: p) (auto split: sum.splits dest: WriteCsvLineRaw_keeps_lines)

lemma streaming_as_rows:
  "streaming_path p nfixed rows =
     (case probe_rows p (map (placeholder_row nfixed) rows) of
        Inl e \<Rightarrow> Inl e
      | Inr p1 \<Rightarrow>
          (case write_lines p1 (headers p1 # rows) of
             Inl e \<Rightarrow> Inl e
           | Inr p3 \<Rightarrow> Inr (FlushFile p3)))"
proof -
  have h: "headers q = headers p1" if "WriteCsvLineRaw p1 (headers p1) = Inr q" for p1 q
    using that by (auto simp: WriteCsvLineRaw_def split: sum.splits option.splits prod.splits)
  show ?thesis
    by (auto simp: streaming_path_def WriteHeader_as_row split: sum.splits)
qed

lemma placeholder_nth:
  "k < length r \<Longrightarrow>
   placeholder_row nfixed r ! k = (if k < nfixed then r ! k else ''-'')"
  by (auto simp: placeholder_row_def nth_append)


text \<open>shapes.txt and stop_times.txt, unsorted, are written the streaming way, with five
  and twelve fixed columns.\<close>

lemma length_addFlds2 [simp]: "length (addFlds2 flds names key sub) = length names"
  by (simp add: addFlds2_def)

lemma placeholder_shape_row:
  "length names = length (ShapesAddFlds feed) \<Longrightarrow>
   placeholder_row 5 (shape_row formatFloat feed names v vp) = shape_probe_row formatFloat feed v vp"
  by (simp add: placeholder_row_def shape_row_def shape_probe_row_def shapePointLine_def Let_def)

lemma shapes_table_streams:
  assumes "\<not> Sorted w"
  shows "shapes_table srt enc formatFloat w file feed =
           streaming_path
             (if KeepColOrder w
              then SetOrder (SetHeader (NewCsvWriter enc file)
                     (shapes_header @ map fst (ShapesAddFlds feed))
                     [''shape_id'', ''shape_pt_lat'', ''shape_pt_lon'', ''shape_pt_sequence''])
                     (ColOrders_Shapes (ColOrders feed))
              else SetHeader (NewCsvWriter enc file)
                     (shapes_header @ map fst (ShapesAddFlds feed))
                     [''shape_id'', ''shape_pt_lat'', ''shape_pt_lon'', ''shape_pt_sequence''])
             5
             (concat (map (\<lambda>v. map (shape_row formatFloat feed (map fst (ShapesAddFlds feed)) v)
                                (Shape_Points v)) (Shapes feed)))"
proof -
  have "map (placeholder_row 5)
          (concat (map (\<lambda>v. map (shape_row formatFloat feed (map fst (ShapesAddFlds feed)) v)
                              (Shape_Points v)) (Shapes feed))) =
        concat (map (\<lambda>v. map (shape_probe_row formatFloat feed v) (Shape_Points v)) (Shapes feed))"
    by (simp add: map_concat placeholder_shape_row comp_def)
  with assms show ?thesis
    by (simp add: shapes_table_def streaming_path_def Let_def split: sum.splits
        del: probe_rows.simps write_lines.simps)
qed

lemma length_stopTimeLine [simp]: "length (stopTimeLine formatFloat v st) = 12"
  by (simp add: stopTimeLine_def Let_def split: prod.splits)

lemma placeholder_stop_time_row:
  "length names = length (StopTimesAddFlds feed) \<Longrightarrow>
   placeholder_row 12 (stop_time_row formatFloat feed names v st) =
     stop_time_probe_row formatFloat feed v st"
  by (simp add: placeholder_row_def stop_time_row_def stop_time_probe_row_def)

lemma stop_times_table_streams:
  assumes "\<not> Sorted w"
  shows "stop_times_table srt enc formatFloat w file feed =
           streaming_path
             (if KeepColOrder w
              then SetOrder (SetHeader (NewCsvWriter enc file)
                     (stop_times_header @ map fst (StopTimesAddFlds feed))
                     [''trip_id'', ''arrival_time'', ''departure_time'', ''stop_id'',
                      ''stop_sequence''])
                     (ColOrders_StopTimes (ColOrders feed))
              else SetHeader (NewCsvWriter enc file)
                     (stop_times_header @ map fst (StopTimesAddFlds feed))
                     [''trip_id'', ''arrival_time'', ''departure_time'', ''stop_id'',
                      ''stop_sequence''])
             12
             (concat (map (\<lambda>v. map (stop_time_row formatFloat feed
                                        (map fst (StopTimesAddFlds feed)) v)
                                (Trip_StopTimes v)) (Trips feed)))"
proof -
  have "map (placeholder_row 12)
          (concat (map (\<lambda>v. map (stop_time_row formatFloat feed
                                    (map fst (StopTimesAddFlds feed)) v)
                              (Trip_StopTimes v)) (Trips feed))) =
        concat (map (\<lambda>v. map (stop_time_probe_row formatFloat feed v) (Trip_StopTimes v))
                  (Trips feed))"
    by (simp add: map_concat placeholder_stop_time_row comp_def)
  with assms show ?thesis
    by (simp add: stop_times_table_def streaming_path_def Let_def split: sum.splits
        del: probe_rows.simps write_lines.simps)
qed


section \<open>Sorting\<close>

subsection \<open>The comparison of rows\<close>

lemma Less_from_prefix:
  "length li = length lj \<Longrightarrow>
   Less_from d li lj a = Inr (drop a (take (nat d) li) < drop a (take (nat d) lj))"
proof (induction d li lj a rule: Less_from.induct)
  case (1 d li lj a)
  show ?case
  proof (cases "int a < d \<and> a < length li")
    case False
    then have "drop a (take (nat d) li) = []" "drop a (take (nat d) lj) = []"
      using 1(2) by auto
    with False show ?thesis by (subst Less_from.simps) auto
  next
    case True
    then have a: "a < length (take (nat d) li)" "a < length (take (nat d) lj)"
      using 1(2) by auto
    have dl: "drop a (take (nat d) li) = li ! a # drop (Suc a) (take (nat d) li)"
      using a(1) by (simp add: Cons_nth_drop_Suc [symmetric])
    have dj: "drop a (take (nat d) lj) = lj ! a # drop (Suc a) (take (nat d) lj)"
      using a(2) by (simp add: Cons_nth_drop_Suc [symmetric])
    show ?thesis
    proof (cases "li ! a = lj ! a")
      case False
      with True 1(2) show ?thesis
        by (subst Less_from.simps) (simp add: dl dj)
    next
      case eq: True
      have "Less_from d li lj (a + 1) =
          Inr (drop (a + 1) (take (nat d) li) < drop (a + 1) (take (nat d) lj))"
        using True 1(2) eq by (intro 1(1)) auto
      with True 1(2) eq show ?thesis
        by (subst Less_from.simps) (simp add: dl dj)
    qed
  qed
qed

lemma SortedLines_Less_prefix:
  "length li = length lj \<Longrightarrow>
   SortedLines_Less d li lj = Inr (take (nat d) li < take (nat d) lj)"
  by (simp add: SortedLines_Less_def Less_from_prefix)

lemma prefix_order_swo:
  "strict_weak_order_on A (\<lambda>x y :: string list. take k x < take k y)"
  by (auto simp: strict_weak_order_on_def)

text \<open>The comparison of trips is the lexicographic order of five keys.\<close>

lemma key_order_swo: "strict_weak_order_on A (\<lambda>x y. (f x :: 'k :: linorder) < f y)"
  by (auto simp: strict_weak_order_on_def)

lemma tripLines_Less_key:
  "tripLines_Less a b =
     Inr ((Route_Type (Trip_Route a), Route_Long_name (Trip_Route a), Trip_Headsign a,
           Route_Id (Trip_Route a), Trip_Id a) <
          (Route_Type (Trip_Route b), Route_Long_name (Trip_Route b), Trip_Headsign b,
           Route_Id (Trip_Route b), Trip_Id b))"
  by (auto simp: tripLines_Less_def less_prod_def)

subsection \<open>The short sort keeps the promise of sort.Sort\<close>

lemma for_each_upt:
  assumes "I a xs"
    and "\<And>i ys. i < b \<Longrightarrow> I i ys \<Longrightarrow> \<exists>zs. body ys i = Inr zs \<and> I (Suc i) zs"
  shows "a \<le> b \<Longrightarrow> \<exists>zs. for_each [a..<b] body xs = Inr zs \<and> I b zs"
  using assms(1)
proof (induction "b - a" arbitrary: a xs)
  case 0
  then show ?case by auto
next
  case (Suc d)
  then have ab: "a < b" by simp
  then have up: "[a..<b] = a # [Suc a..<b]" by (simp add: upt_conv_Cons)
  from assms(2) [OF ab Suc(4)] obtain ys where
    ys: "body xs a = Inr ys" "I (Suc a) ys"
    by auto
  have "\<exists>zs. for_each [Suc a..<b] body ys = Inr zs \<and> I b zs"
  proof (rule Suc(1))
    show "d = b - Suc a" using Suc(2) by simp
    show "Suc a \<le> b" using ab by simp
    show "I (Suc a) ys" by (rule ys(2))
  qed
  with ys(1) show ?case by (simp add: up)
qed

lemma swo_asym:
  "strict_weak_order_on S lt \<Longrightarrow> x \<in> S \<Longrightarrow> y \<in> S \<Longrightarrow> lt x y \<Longrightarrow> \<not> lt y x"
  unfolding strict_weak_order_on_def by blast

lemma swo_le_trans:
  "strict_weak_order_on S lt \<Longrightarrow> x \<in> S \<Longrightarrow> y \<in> S \<Longrightarrow> z \<in> S \<Longrightarrow>
   \<not> lt y x \<Longrightarrow> \<not> lt z y \<Longrightarrow> \<not> lt z x"
  unfolding strict_weak_order_on_def by blast

lemma Swap_adjacent:
  "Swap (A @ a # x # R) (Suc (length A)) (length A) = A @ x # a # R"
  by (simp add: Swap_def nth_append list_update_append)

lemma insertion_inner_sorted:
  assumes swo: "strict_weak_order_on S lt"
    and tot: "\<forall>x\<in>S. \<forall>y\<in>S. cmp x y = Inr (lt x y)"
  shows "set (A @ x # B) \<subseteq> S \<Longrightarrow> sorted_wrt (\<lambda>x y. \<not> lt y x) (A @ B) \<Longrightarrow>
         \<forall>b\<in>set B. lt x b \<Longrightarrow>
         \<exists>C. insertion_inner cmp (A @ x # B @ R) (length A) = Inr (C @ R) \<and>
             mset C = mset (A @ x # B) \<and> sorted_wrt (\<lambda>x y. \<not> lt y x) C"
proof (induction A arbitrary: B rule: rev_induct)
  case Nil
  have "sorted_wrt (\<lambda>x y. \<not> lt y x) (x # B)"
    using Nil swo_asym [OF swo] by auto
  then show ?case
    by (intro exI [of _ "x # B"]) simp
next
  case (snoc a A)
  have xa: "x \<in> S" "a \<in> S" using snoc.prems(1) by auto
  have c: "cmp x a = Inr (lt x a)" using tot xa by simp
  have nth: "((A @ [a]) @ x # B @ R) ! Suc (length A) = x" "((A @ [a]) @ x # B @ R) ! length A = a"
    by (simp_all add: nth_append)
  show ?case
  proof (cases "lt x a")
    case True
    have sw: "Swap ((A @ [a]) @ x # B @ R) (Suc (length A)) (length A) = A @ x # (a # B) @ R"
      using Swap_adjacent [of A a x "B @ R"] by simp
    have "\<exists>C. insertion_inner cmp (A @ x # (a # B) @ R) (length A) = Inr (C @ R) \<and>
             mset C = mset (A @ x # (a # B)) \<and> sorted_wrt (\<lambda>x y. \<not> lt y x) C"
    proof (rule snoc.IH)
      show "set (A @ x # a # B) \<subseteq> S" using snoc.prems(1) by auto
      show "sorted_wrt (\<lambda>x y. \<not> lt y x) (A @ a # B)" using snoc.prems(2) by simp
      show "\<forall>b\<in>set (a # B). lt x b" using snoc.prems(3) True by simp
    qed
    then obtain C where
      C: "insertion_inner cmp (A @ x # (a # B) @ R) (length A) = Inr (C @ R)"
        "mset C = mset (A @ x # (a # B))" "sorted_wrt (\<lambda>x y. \<not> lt y x) C"
      by blast
    have "insertion_inner cmp ((A @ [a]) @ x # B @ R) (length (A @ [a])) = Inr (C @ R)"
      using c True C(1) nth sw by simp
    with C(2,3) show ?thesis by (intro exI [of _ C]) simp
  next
    case False
    have run: "insertion_inner cmp ((A @ [a]) @ x # B @ R) (length (A @ [a])) =
        Inr (((A @ [a]) @ x # B) @ R)"
      using c False nth by simp
    have AB: "sorted_wrt (\<lambda>x y. \<not> lt y x) (A @ [a])" "sorted_wrt (\<lambda>x y. \<not> lt y x) B"
      "\<forall>y\<in>set (A @ [a]). \<forall>b\<in>set B. \<not> lt b y"
      using snoc.prems(2) by (auto simp: sorted_wrt_append)
    have Ax: "\<not> lt x y" if "y \<in> set (A @ [a])" for y
    proof (cases "y = a")
      case True
      with False show ?thesis by simp
    next
      case ny: False
      with that have yA: "y \<in> set A" by simp
      then have "\<not> lt a y" using AB(1) by (auto simp: sorted_wrt_append)
      moreover have "y \<in> S" using yA snoc.prems(1) by auto
      ultimately show ?thesis
        using swo_le_trans [OF swo _ xa(2) xa(1), of y] False by blast
    qed
    have xB: "\<not> lt b x" if "b \<in> set B" for b
    proof -
      have "b \<in> S" using that snoc.prems(1) by auto
      then show ?thesis using swo_asym [OF swo xa(1)] snoc.prems(3) that by blast
    qed
    have "sorted_wrt (\<lambda>x y. \<not> lt y x) ((A @ [a]) @ x # B)"
      using AB Ax xB by (auto simp: sorted_wrt_append)
    with run show ?thesis
      by (intro exI [of _ "(A @ [a]) @ x # B"]) simp
  qed
qed

lemma insertionSort_sorts:
  assumes swo: "strict_weak_order_on (set xs) lt"
    and tot: "\<forall>x\<in>set xs. \<forall>y\<in>set xs. cmp x y = Inr (lt x y)"
  shows "\<exists>ys. insertionSort cmp xs = Inr ys \<and> mset ys = mset xs \<and>
              sorted_wrt (\<lambda>x y. \<not> lt y x) ys"
proof (cases "length xs = 0")
  case True
  then show ?thesis by (simp add: insertionSort_def)
next
  case False
  let ?I = "\<lambda>i ys. mset ys = mset xs \<and> sorted_wrt (\<lambda>x y. \<not> lt y x) (take i ys)"
  have start: "?I 1 xs"
    by (cases xs) simp_all
  have step: "\<exists>zs. insertion_inner cmp ys i = Inr zs \<and> ?I (Suc i) zs"
    if i: "i < length xs" and I: "?I i ys" for i ys
  proof -
    have len: "length ys = length xs" using I mset_eq_length by blast
    have set: "set ys = set xs" using I mset_eq_setD by blast
    define A x R where "A = take i ys" and "x = ys ! i" and "R = drop (Suc i) ys"
    have split: "ys = A @ x # [] @ R"
      using i len by (simp add: A_def x_def R_def id_take_nth_drop [symmetric])
    have li: "length A = i" using i len by (simp add: A_def)
    have "\<exists>C. insertion_inner cmp (A @ x # [] @ R) (length A) = Inr (C @ R) \<and>
          mset C = mset (A @ x # []) \<and> sorted_wrt (\<lambda>x y. \<not> lt y x) C"
    proof (rule insertion_inner_sorted [OF swo tot])
      have "set A \<subseteq> set ys" "x \<in> set ys"
        using i len by (auto simp: A_def x_def dest: in_set_takeD)
      then show "set (A @ [x]) \<subseteq> set xs" using set by simp
      show "sorted_wrt (\<lambda>x y. \<not> lt y x) (A @ [])" using I by (simp add: A_def)
      show "\<forall>b\<in>set []. lt x b" by simp
    qed
    then obtain C where
      C: "insertion_inner cmp (A @ x # [] @ R) (length A) = Inr (C @ R)"
        "mset C = mset (A @ [x])" "sorted_wrt (\<lambda>x y. \<not> lt y x) C"
      by auto
    have run: "insertion_inner cmp ys i = Inr (C @ R)"
      using C(1) unfolding li split [symmetric] .
    have "size (mset C) = size (mset (A @ [x]))" using C(2) by simp
    then have "length C = Suc i" using li by simp
    then have tk: "take (Suc i) (C @ R) = C" by simp
    have "mset (C @ R) = mset (A @ x # [] @ R)"
      using C(2) by simp
    also have "\<dots> = mset ys" unfolding split [symmetric] ..
    finally have "mset (C @ R) = mset xs" using I by simp
    with run C(3) tk show ?thesis by (intro exI [of _ "C @ R"]) simp
  qed
  from False have "1 \<le> length xs" by (cases xs) simp_all
  from for_each_upt [where I = ?I and body = "insertion_inner cmp", OF start step this]
  obtain zs where "for_each [1..<length xs] (insertion_inner cmp) xs = Inr zs"
    "mset zs = mset xs" "sorted_wrt (\<lambda>x y. \<not> lt y x) (take (length xs) zs)"
    by blast
  moreover from this have "length zs = length xs" using mset_eq_length by blast
  ultimately show ?thesis by (simp add: insertionSort_def)
qed

lemma shell_pass_permutes:
  assumes tot: "\<forall>x\<in>set xs. \<forall>y\<in>set xs. cmp x y = Inr (lt x y)"
  shows "\<exists>ys. for_each [6..<length xs] (shell_step cmp) xs = Inr ys \<and> mset ys = mset xs"
proof (cases "6 \<le> length xs")
  case False
  then show ?thesis by simp
next
  case True
  let ?I = "\<lambda>(i::nat) ys. mset ys = mset xs"
  have step: "\<exists>zs. shell_step cmp ys i = Inr zs \<and> ?I (Suc i) zs"
    if i: "i < length xs" and I: "?I i ys" for i ys
  proof -
    have len: "length ys = length xs" using I mset_eq_length by blast
    have set: "set ys = set xs" using I mset_eq_setD by blast
    have a: "i < length ys" "i - 6 < length ys" using i len by simp_all
    then have "ys ! i \<in> set ys" "ys ! (i - 6) \<in> set ys" by simp_all
    then have "ys ! i \<in> set xs" "ys ! (i - 6) \<in> set xs" using set by simp_all
    then have c: "cmp (ys ! i) (ys ! (i - 6)) = Inr (lt (ys ! i) (ys ! (i - 6)))"
      using tot by simp
    have "mset (Swap ys i (i - 6)) = mset ys"
      unfolding Swap_def using a by (simp add: mset_swap)
    with c I show ?thesis by (simp add: shell_step_def)
  qed
  from for_each_upt [where I = ?I and body = "shell_step cmp", OF _ step True]
  show ?thesis by simp
qed

lemma short_sort_keeps_contract: "sort_contract short_sort"
  unfolding sort_contract_def
proof (intro allI impI)
  fix cmp :: "'a \<Rightarrow> 'a \<Rightarrow> panic_value + bool" and lt and xs :: "'a list"
  assume a: "(\<forall>x\<in>set xs. \<forall>y\<in>set xs. cmp x y = Inr (lt x y)) \<and> strict_weak_order_on (set xs) lt"
  show "\<exists>ys. short_sort cmp xs = Inr ys \<and> mset ys = mset xs \<and> sorted_wrt (\<lambda>x y. \<not> lt y x) ys"
  proof (cases "length xs > 1")
    case False
    then have "sorted_wrt (\<lambda>x y. \<not> lt y x) xs"
      by (cases xs) (auto simp: Suc_le_eq)
    with False show ?thesis by (simp add: short_sort_def)
  next
    case True
    from shell_pass_permutes [of xs cmp lt] a obtain ys where
      ys: "for_each [6..<length xs] (shell_step cmp) xs = Inr ys" "mset ys = mset xs"
      by blast
    then have set: "set ys = set xs" using mset_eq_setD by blast
    from insertionSort_sorts [of ys lt cmp] a set obtain zs where
      "insertionSort cmp ys = Inr zs" "mset zs = mset ys" "sorted_wrt (\<lambda>x y. \<not> lt y x) zs"
      by auto
    with ys True show ?thesis by (simp add: short_sort_def)
  qed
qed

lemma sort_contractD:
  "sort_contract srt \<Longrightarrow> \<forall>x\<in>set xs. \<forall>y\<in>set xs. cmp x y = Inr (lt x y) \<Longrightarrow>
   strict_weak_order_on (set xs) lt \<Longrightarrow>
   \<exists>ys. srt cmp xs = Inr ys \<and> mset ys = mset xs \<and> sorted_wrt (\<lambda>x y. \<not> lt y x) ys"
  unfolding sort_contract_def by blast

text \<open>
  Claim C3, amended. With a \<^verbatim>\<open>sort.Sort\<close> that keeps its contract and buffered rows that
  all have the same number of cells, \<^verbatim>\<open>SortByCols(k)\<close> returns, leaves everything but the
  buffered rows as it was, and rearranges the rows so that their first \<open>k\<close> cells are in
  lexicographic order, each row not greater than the next. Nothing is said about the
  order of rows whose first \<open>k\<close> cells are equal.
\<close>

theorem SortByCols_orders_by_prefix:
  assumes contract: "sort_contract srt"
    and len: "\<forall>r\<in>set (lines p). length r = n"
  shows "\<exists>ls. SortByCols srt p k = Inr (p\<lparr>lines := ls\<rparr>) \<and> mset ls = mset (lines p) \<and>
              sorted_wrt (\<lambda>x y. take (nat k) x \<le> take (nat k) y) ls"
proof -
  let ?lt = "\<lambda>x y :: string list. take (nat k) x < take (nat k) y"
  have tot: "\<forall>x\<in>set (lines p). \<forall>y\<in>set (lines p). SortedLines_Less k x y = Inr (?lt x y)"
    using len by (simp add: SortedLines_Less_prefix)
  have swo: "strict_weak_order_on (set (lines p)) ?lt" by (rule prefix_order_swo)
  from sort_contractD [OF contract tot swo] obtain ls where
    ls: "srt (SortedLines_Less k) (lines p) = Inr ls" "mset ls = mset (lines p)"
      "sorted_wrt (\<lambda>x y. \<not> ?lt y x) ls"
    by blast
  have "(\<lambda>x y. \<not> ?lt y x) = (\<lambda>x y. take (nat k) x \<le> take (nat k) y)"
    by (simp add: not_less)
  with ls show ?thesis by (intro exI [of _ ls]) (simp add: SortByCols_def)
qed

lemma short_sort_seven_rows:
  "short_sort (SortedLines_Less 1) seven_rows =
     Inr [[''a'', ''7''], [''b'', ''2''], [''b'', ''1''], [''c'', ''3''], [''c'', ''4''],
          [''c'', ''5''], [''c'', ''6'']]"
  by code_simp

text \<open>
  A sort that keeps the contract, the one Go ran on short slices up to Go 1.18, and seven
  rows sorted on their first cell: the two rows with the key \<open>b\<close> change places.
\<close>

theorem stable_sort_counterexample:
  "sort_contract (short_sort :: string list sort_routine) \<and>
   lines seven_row_table =
     [[''b'', ''1''], [''b'', ''2''], [''c'', ''3''], [''c'', ''4''], [''c'', ''5''],
      [''c'', ''6''], [''a'', ''7'']] \<and>
   SortByCols short_sort seven_row_table 1 =
     Inr (seven_row_table\<lparr>lines :=
            [[''a'', ''7''], [''b'', ''2''], [''b'', ''1''], [''c'', ''3''], [''c'', ''4''],
             [''c'', ''5''], [''c'', ''6'']]\<rparr>)"
proof -
  have "lines seven_row_table = seven_rows" by (simp add: seven_row_table_def)
  then show ?thesis
    using short_sort_seven_rows short_sort_keeps_contract
    by (simp add: SortByCols_def seven_rows_def)
qed

theorem SortByCols_orders_by_prefix_witness:
  "\<exists>ls. SortByCols short_sort seven_row_table 1 = Inr (seven_row_table\<lparr>lines := ls\<rparr>) \<and>
        mset ls = mset (lines seven_row_table) \<and>
        sorted_wrt (\<lambda>x y. take (nat 1) x \<le> take (nat 1) y) ls"
proof -
  have "\<forall>r\<in>set (lines seven_row_table). length r = 2"
    by (simp add: seven_row_table_def seven_rows_def)
  from SortByCols_orders_by_prefix [OF short_sort_keeps_contract this] show ?thesis .
qed

section \<open>Tables without rows\<close>

lemma sort_contract_Nil: "sort_contract srt \<Longrightarrow> srt cmp [] = Inr []"
proof -
  assume "sort_contract srt"
  then have "\<exists>ys. srt cmp [] = Inr ys \<and> mset ys = mset [] \<and> sorted_wrt (\<lambda>x y. \<not> False) ys"
    unfolding sort_contract_def strict_weak_order_on_def
    by (elim allE [of _ cmp] allE [of _ "\<lambda>x y. False"] allE [of _ "[]"]) simp
  then show ?thesis by auto
qed

lemma SortByCols_no_rows:
  "sort_contract srt \<Longrightarrow> lines p = [] \<Longrightarrow> SortByCols srt p d = Inr p"
  by (simp add: SortByCols_def sort_contract_Nil)

text \<open>A table without rows: the body of a buffering table writer after the schema and
  the order are set.\<close>

lemma empty_table_body:
  assumes "Sorted w \<longrightarrow> sort_contract srt"
    and p: "p = (if KeepColOrder w
                 then SetOrder (SetHeader (NewCsvWriter enc Accepting) hdr req) ord
                 else SetHeader (NewCsvWriter enc Accepting) hdr req)"
  shows "\<exists>p'. (case buffer_rows p [] of
                Inl r \<Rightarrow> Inl r
              | Inr csvwriter \<Rightarrow>
                  (case (if Sorted w then SortByCols srt csvwriter d else Inr csvwriter) of
                     Inl r \<Rightarrow> Inl r
                   | Inr csvwriter \<Rightarrow> Flush csvwriter)) = Inr p' \<and>
             flushed (writer p') = [hdr]"
proof -
  have l: "lines p = []" and a: "sink (writer p) = Accepting" and f: "failure (writer p) = None"
    and h: "headers p = hdr" and wr: "written (writer p) = []"
    by (simp_all add: p)
  have s: "(if Sorted w then SortByCols srt p d else Inr p) = Inr p"
    using assms(1) l by (simp add: SortByCols_no_rows)
  from Flush_no_rows_accepting [OF l a f] h wr s show ?thesis by auto
qed

lemma update_update: "AList.update k v (AList.update k v' al) = AList.update k v al"
  by (induction al) auto

lemma delete_absent: "map_of al k = None \<Longrightarrow> AList.delete k al = al"
  by (induction al) (auto split: if_splits)

lemma dir_getFileForWriting:
  "stat dest = Some Directory \<Longrightarrow> name \<notin> set (denied dest) \<Longrightarrow>
   getFileForWriting w dest name =
     (Inr (stream dest), w, dest\<lparr>entries := AList.update name [] (entries dest)\<rparr>)"
  by (simp add: getFileForWriting_def)

lemma finish_table_ok:
  "body = Inr p' \<Longrightarrow>
   finish_table name w (dest\<lparr>entries := AList.update name [] (entries dest)\<rparr>) body =
     Inr (None, w, dest\<lparr>entries := AList.update name (flushed (writer p')) (entries dest)\<rparr>)"
  by (simp add: finish_table_def update_update)

lemma agencies_table_empty:
  assumes "Sorted w \<longrightarrow> sort_contract srt" and "Agencies feed = []"
  shows "\<exists>p'. agencies_table srt enc w Accepting feed = Inr p' \<and>
              flushed (writer p') = [agency_header @ map fst (AgenciesAddFlds feed)]"
  using empty_table_body [where hdr = "agency_header @ map fst (AgenciesAddFlds feed)" and d = 1,
      OF assms(1) refl] assms(2)
  by (simp add: agencies_table_def Let_def del: buffer_rows.simps)

lemma stops_table_empty:
  assumes "Sorted w \<longrightarrow> sort_contract srt" and "Stops feed = []"
  shows "\<exists>p'. stops_table srt enc formatFloat w Accepting feed = Inr p' \<and>
              flushed (writer p') = [stops_header @ map fst (StopsAddFlds feed)]"
  using empty_table_body [where hdr = "stops_header @ map fst (StopsAddFlds feed)" and d = 12,
      OF assms(1) refl] assms(2)
  by (simp add: stops_table_def Let_def del: buffer_rows.simps)

lemma routes_table_empty:
  assumes "Sorted w \<longrightarrow> sort_contract srt" and "Routes feed = []"
  shows "\<exists>p'. routes_table srt enc w Accepting feed = Inr p' \<and>
              flushed (writer p') = [routes_header @ map fst (RoutesAddFlds feed)]"
  using empty_table_body [where hdr = "routes_header @ map fst (RoutesAddFlds feed)" and d = 9,
      OF assms(1) refl] assms(2)
  by (simp add: routes_table_def Let_def del: buffer_rows.simps)

lemma trips_table_empty:
  assumes "Sorted w \<longrightarrow> sort_contract srt" and "Trips feed = []"
  shows "\<exists>p'. trips_table srt enc w Accepting feed = Inr p' \<and>
              flushed (writer p') = [trips_header @ map fst (TripsAddFlds feed)]"
  using empty_table_body [where hdr = "trips_header @ map fst (TripsAddFlds feed)" and d = 10,
      OF assms(1) refl] assms(2)
  by (simp add: trips_table_def Let_def del: buffer_rows.simps)

lemma calendar_table_empty:
  assumes "Sorted w \<longrightarrow> sort_contract srt" and "Services feed = []"
  shows "\<exists>p'. calendar_table srt enc w Accepting feed = Inr p' \<and>
              flushed (writer p') = [calendar_header]"
  using empty_table_body [where hdr = calendar_header and d = 10, OF assms(1) refl] assms(2)
  by (simp add: calendar_table_def Let_def del: buffer_rows.simps)

text \<open>stop_times.txt without stop times: the header is masked, so it has the columns
  named in the order and the required ones.\<close>

lemma stop_times_table_empty:
  assumes srt: "Sorted w \<longrightarrow> sort_contract srt"
    and none: "\<forall>t\<in>set (Trips feed). Trip_StopTimes t = []"
    and dist: "KeepColOrder w \<longrightarrow>
                 distinct (stop_times_header @ map fst (StopTimesAddFlds feed)) \<and>
                 distinct (ColOrders_StopTimes (ColOrders feed))"
  shows "\<exists>p'. stop_times_table srt enc formatFloat w Accepting feed = Inr p' \<and>
              flushed (writer p') =
                [arranged (stop_times_header @ map fst (StopTimesAddFlds feed))
                   (if KeepColOrder w then ColOrders_StopTimes (ColOrders feed) else [])
                   (\<lambda>k. (stop_times_header @ map fst (StopTimesAddFlds feed)) ! k \<in>
                          set [''trip_id'', ''arrival_time'', ''departure_time'', ''stop_id'',
                               ''stop_sequence''])
                   (stop_times_header @ map fst (StopTimesAddFlds feed))]"
proof -
  let ?hdr = "stop_times_header @ map fst (StopTimesAddFlds feed)"
  let ?req = "[''trip_id'', ''arrival_time'', ''departure_time'', ''stop_id'', ''stop_sequence'']"
  let ?ord = "if KeepColOrder w then ColOrders_StopTimes (ColOrders feed) else []"
  let ?p = "if KeepColOrder w
            then SetOrder (SetHeader (NewCsvWriter enc Accepting) ?hdr ?req)
                   (ColOrders_StopTimes (ColOrders feed))
            else SetHeader (NewCsvWriter enc Accepting) ?hdr ?req"
  have p: "?p = SetOrder (SetHeader (NewCsvWriter enc Accepting) ?hdr ?req) ?ord" by simp
  have probe: "concat (map (\<lambda>v. map (stop_time_probe_row formatFloat feed v) (Trip_StopTimes v))
                         (Trips feed)) = []"
    using none by simp
  have "\<exists>ys. (if Sorted w then srt tripLines_Less (Trips feed) else Inr (Trips feed)) = Inr ys \<and>
             set ys = set (Trips feed)"
  proof (cases "Sorted w")
    case False
    then show ?thesis by simp
  next
    case True
    with srt have c: "sort_contract srt" by simp
    let ?key = "\<lambda>t. (Route_Type (Trip_Route t), Route_Long_name (Trip_Route t), Trip_Headsign t,
                    Route_Id (Trip_Route t), Trip_Id t)"
    have cmp: "\<forall>x\<in>set (Trips feed). \<forall>y\<in>set (Trips feed).
        tripLines_Less x y = Inr (?key x < ?key y)"
      by (simp add: tripLines_Less_key)
    have swo: "strict_weak_order_on (set (Trips feed)) (\<lambda>x y. ?key x < ?key y)"
      by (rule key_order_swo)
    from sort_contractD [OF c cmp swo]
    obtain ys where "srt tripLines_Less (Trips feed) = Inr ys" "mset ys = mset (Trips feed)"
      by blast
    with True show ?thesis by (auto dest: mset_eq_setD)
  qed
  then obtain ys where ys: "(if Sorted w then srt tripLines_Less (Trips feed) else Inr (Trips feed)) = Inr ys"
    and sys: "set ys = set (Trips feed)"
    by blast
  have rows: "concat (map (\<lambda>v. map (stop_time_row formatFloat feed (map fst (StopTimesAddFlds feed)) v)
                               (Trip_StopTimes v)) ys) = []"
    using none sys by simp
  have mask: "maskLine ?p ?hdr = Inr (arranged ?hdr ?ord (\<lambda>k. headerUsage ?p ! k) ?hdr)"
  proof (cases "KeepColOrder w")
    case True
    with dist have dh: "distinct ?hdr" and d: "distinct ?ord" by simp_all
    have o: "order ?p = zip (filter (\<lambda>name. name \<in> set ?hdr) ?ord)
                          [0..<length (filter (\<lambda>name. name \<in> set ?hdr) ?ord)]"
      unfolding p by (rule order_SetOrder [OF d])
    show ?thesis
      by (rule maskLine_arranged [OF o _ _ dh d]) (simp_all add: True)
  next
    case False
    then have "maskLine ?p ?hdr = Inr (arranged (headers ?p) [] (\<lambda>k. headerUsage ?p ! k) ?hdr)"
      by (intro maskLine_unordered) simp_all
    with False show ?thesis by simp
  qed
  have hu: "headerUsage ?p ! k = (?hdr ! k \<in> set ?req)" if "k < length ?hdr" for k
    using SetHeader_usage_nth [OF that] by (simp only: p SetOrder_fields)
  have "arranged ?hdr ?ord (\<lambda>k. headerUsage ?p ! k) ?hdr =
        arranged ?hdr ?ord (\<lambda>k. ?hdr ! k \<in> set ?req) ?hdr"
    by (rule arranged_cong) (rule hu)
  with mask have mask': "maskLine ?p ?hdr = Inr (arranged ?hdr ?ord (\<lambda>k. ?hdr ! k \<in> set ?req) ?hdr)"
    by simp
  have w: "sink (writer ?p) = Accepting" "failure (writer ?p) = None" "written (writer ?p) = []"
    "headers ?p = ?hdr"
    by simp_all
  have wh: "WriteHeader ?p =
      Inr (?p\<lparr>writer := taken (writer ?p) [arranged ?hdr ?ord (\<lambda>k. ?hdr ! k \<in> set ?req) ?hdr]\<rparr>)"
    using mask' w by (simp add: WriteHeader_def csv_Write_accepting)
  show ?thesis
    unfolding stop_times_table_def Let_def probe probe_rows.simps sum.case ys rows wh
      write_lines.simps
    using w by (simp add: FlushFile_def csv_Flush_accepting)
qed

lemma delExistingFile_dir:
  assumes "stat dest = Some Directory" and "name \<notin> set (denied dest)"
  shows "delExistingFile dest name = (None, dest\<lparr>entries := AList.delete name (entries dest)\<rparr>)"
proof (cases "map_of (entries dest) name")
  case None
  then have "dest\<lparr>entries := AList.delete name (entries dest)\<rparr> = dest"
    by (simp add: delete_absent)
  with None assms show ?thesis by (simp add: delExistingFile_def)
next
  case (Some recs)
  with assms show ?thesis by (simp add: delExistingFile_def)
qed


section \<open>A rejected write\<close>

lemma length_agency_row [simp]:
  "length (agency_row feed names v) = length agency_header + length names"
  by (simp add: agency_row_def agency_header_def addFlds_def Let_def)

text \<open>agency.txt without sorting and without an order, over a stream that accepts and over
  one that rejects: the same records go to the \<^verbatim>\<open>csv.Writer\<close>.\<close>

lemma agencies_table_records:
  assumes "\<not> Sorted w" and "\<not> KeepColOrder w"
  shows "\<exists>p. agencies_table srt enc w Accepting feed = Inr p \<and>
           (if length (csv_bytes enc (flushed (writer p))) \<le> 4096
            then \<exists>q. agencies_table srt enc w (Rejecting reason) feed = Inr q \<and>
                     flushed (writer q) = []
            else agencies_table srt enc w (Rejecting reason) feed = Inl (PanicString reason))"
proof -
  let ?names = "map fst (AgenciesAddFlds feed)"
  let ?hdr = "agency_header @ ?names"
  let ?req = "[''agency_name'', ''agency_url'', ''agency_timezone'']"
  let ?rows = "map (agency_row feed ?names) (Agencies feed)"
  have run: "\<exists>p. buffered_path (SetHeader (NewCsvWriter enc Accepting) ?hdr ?req) ?rows = Inr p \<and>
      (if length (csv_bytes enc (flushed (writer p))) \<le> 4096
       then \<exists>q. buffered_path (SetHeader (NewCsvWriter enc (Rejecting reason)) ?hdr ?req) ?rows =
                  Inr q \<and> flushed (writer q) = []
       else buffered_path (SetHeader (NewCsvWriter enc (Rejecting reason)) ?hdr ?req) ?rows =
              Inl (PanicString reason))"
  proof -
    let ?pa = "SetHeader (NewCsvWriter enc Accepting) ?hdr ?req"
    let ?pr = "SetHeader (NewCsvWriter enc (Rejecting reason)) ?hdr ?req"
    have ua: "headerUsage ?pa = headerUsage ?pr" by (simp add: SetHeader_usage)
    have "\<forall>r\<in>set ?rows. length r \<le> length (headerUsage ?pa)" by auto
    from buffer_rows_ok [OF this] obtain u where
      u: "buffer_rows ?pa ?rows = Inr (?pa\<lparr>lines := lines ?pa @ ?rows, headerUsage := u\<rparr>)"
        "length u = length (headerUsage ?pa)"
        "\<forall>k < length u. u ! k =
           (headerUsage ?pa ! k \<or> (\<exists>r\<in>set ?rows. k < length r \<and> r ! k \<noteq> []))"
      by blast
    have "\<forall>r\<in>set ?rows. length r \<le> length (headerUsage ?pr)" by auto
    from buffer_rows_ok [OF this] obtain u' where
      u': "buffer_rows ?pr ?rows = Inr (?pr\<lparr>lines := lines ?pr @ ?rows, headerUsage := u'\<rparr>)"
        "length u' = length (headerUsage ?pr)"
        "\<forall>k < length u'. u' ! k =
           (headerUsage ?pr ! k \<or> (\<exists>r\<in>set ?rows. k < length r \<and> r ! k \<noteq> []))"
      by blast
    from u(2,3) u'(2,3) ua have same: "u' = u"
      by (intro nth_equalityI) simp_all
    let ?qa = "?pa\<lparr>lines := lines ?pa @ ?rows, headerUsage := u\<rparr>"
    let ?qr = "?pr\<lparr>lines := lines ?pr @ ?rows, headerUsage := u\<rparr>"
    show ?thesis
    proof (cases "?rows = []")
      case True
      have "\<exists>w'. Flush ?qa = Inr (?qa\<lparr>writer := w'\<rparr>) \<and>
            flushed w' = written (writer ?qa) @ [headers ?qa]"
        using True by (intro Flush_no_rows_accepting) simp_all
      then obtain wa where wa: "Flush ?qa = Inr (?qa\<lparr>writer := wa\<rparr>)" "flushed wa = [?hdr]"
        by auto
      have acc: "buffered_path ?pa ?rows = Inr (?qa\<lparr>writer := wa\<rparr>)"
        using u(1) wa(1) by (simp add: buffered_path_def)
      have "if unflushed (writer ?qr) + length (csv_bytes (encoder (writer ?qr)) [headers ?qr])
                    \<le> 4096
               then \<exists>w'. Flush ?qr = Inr (?qr\<lparr>writer := w'\<rparr>) \<and> flushed w' = flushed (writer ?qr)
               else Flush ?qr = Inl (PanicString reason)"
        using True by (intro Flush_no_rows_rejecting) simp_all
      then have rej: "if length (csv_bytes enc [?hdr]) \<le> 4096
          then \<exists>q. buffered_path ?pr ?rows = Inr q \<and> flushed (writer q) = []
          else buffered_path ?pr ?rows = Inl (PanicString reason)"
        using u'(1) same by (auto simp: buffered_path_def split: if_splits)
      show ?thesis
        using acc wa(2) rej by (intro exI [of _ "?qa\<lparr>writer := wa\<rparr>"]) simp
    next
      case False
      let ?recs = "map (kept u) (?hdr # ?rows)"
      have ma: "\<forall>v\<in>set (headers ?qa # lines ?qa). maskLine ?qa v = Inr (kept u v)"
        using u(2) by (auto simp: maskLine_plain)
      have mr: "\<forall>v\<in>set (headers ?qr # lines ?qr). maskLine ?qr v = Inr (kept u v)"
        using u(2) ua by (auto simp: maskLine_plain)
      have "\<exists>w'. Flush ?qa = Inr (?qa\<lparr>writer := w', lines := []\<rparr>) \<and>
            flushed w' = written (writer ?qa) @ map (kept u) (headers ?qa # lines ?qa)"
        using False by (intro Flush_accepting [OF _ ma]) simp_all
      then obtain wa where wa: "Flush ?qa = Inr (?qa\<lparr>writer := wa, lines := []\<rparr>)"
        "flushed wa = ?recs"
        by auto
      have acc: "buffered_path ?pa ?rows = Inr (?qa\<lparr>writer := wa, lines := []\<rparr>)"
        using u(1) wa(1) by (simp add: buffered_path_def)
      have "if unflushed (writer ?qr) +
                    length (csv_bytes (encoder (writer ?qr)) (map (kept u) (headers ?qr # lines ?qr)))
                    \<le> 4096
               then \<exists>w'. Flush ?qr = Inr (?qr\<lparr>writer := w', lines := []\<rparr>) \<and>
                          flushed w' = flushed (writer ?qr)
               else Flush ?qr = Inl (PanicString reason)"
        using False by (intro Flush_rejecting [OF _ mr]) simp_all
      then have rej: "if length (csv_bytes enc ?recs) \<le> 4096
          then \<exists>q. buffered_path ?pr ?rows = Inr q \<and> flushed (writer q) = []
          else buffered_path ?pr ?rows = Inl (PanicString reason)"
        using u'(1) same by (auto simp: buffered_path_def split: if_splits)
      show ?thesis
        using acc wa(2) rej
        by (intro exI [of _ "?qa\<lparr>writer := wa, lines := []\<rparr>"]) simp
    qed
  qed
  have eq: "agencies_table srt enc w out feed =
      buffered_path (SetHeader (NewCsvWriter enc out) ?hdr ?req) ?rows" for out
    using assms by (simp add: agencies_table_def buffered_path_def Let_def split: sum.splits)
  show ?thesis unfolding eq by (rule run)
qed

text \<open>
  Claim C4, as the code has it. \<^verbatim>\<open>writeAgencies\<close> over a stream that rejects every
  write, unsorted and without an order. Take the records that agency.txt holds when the
  stream accepts. If their bytes fit the buffer of the \<^verbatim>\<open>csv.Writer\<close>, no \<^verbatim>\<open>Write\<close>
  fails, the rejection is met only in the last \<^verbatim>\<open>Flush\<close>, which returns nothing, and
  \<^verbatim>\<open>writeAgencies\<close> returns nil over an empty file: the failure is lost. If they do not
  fit, a \<^verbatim>\<open>Write\<close> fails, the writer panics with the message as a string, the deferred
  function's \<^verbatim>\<open>r.(error)\<close> panics on it, and that panic leaves \<^verbatim>\<open>writeAgencies\<close>. In
  neither case is a \<^verbatim>\<open>writeError\<close> returned.
\<close>

theorem rejected_write_is_lost_or_escapes:
  assumes "stat dest = Some Directory" and "''agency.txt'' \<notin> set (denied dest)"
    and "\<not> Sorted w" and "\<not> KeepColOrder w"
    and "stream dest = Rejecting reason"
  shows "\<exists>p. agencies_table srt enc w Accepting feed = Inr p \<and>
           writeAgencies srt enc w dest feed =
             (if length (csv_bytes enc (flushed (writer p))) \<le> 4096
              then Inr (None, w, dest\<lparr>entries := AList.update ''agency.txt'' [] (entries dest)\<rparr>)
              else Inl (RuntimeError
                          ''interface conversion: string is not error: missing method Error''))"
proof -
  from agencies_table_records [OF assms(3,4), of srt enc feed reason] obtain p where
    p: "agencies_table srt enc w Accepting feed = Inr p"
    and r: "if length (csv_bytes enc (flushed (writer p))) \<le> 4096
            then \<exists>q. agencies_table srt enc w (Rejecting reason) feed = Inr q \<and>
                     flushed (writer q) = []
            else agencies_table srt enc w (Rejecting reason) feed = Inl (PanicString reason)"
    by blast
  have "writeAgencies srt enc w dest feed =
      (if length (csv_bytes enc (flushed (writer p))) \<le> 4096
       then Inr (None, w, dest\<lparr>entries := AList.update ''agency.txt'' [] (entries dest)\<rparr>)
       else Inl (RuntimeError
                   ''interface conversion: string is not error: missing method Error''))"
  proof (cases "length (csv_bytes enc (flushed (writer p))) \<le> 4096")
    case True
    with r obtain q where q: "agencies_table srt enc w (Rejecting reason) feed = Inr q"
      "flushed (writer q) = []"
      by auto
    from assms(1,2,5) finish_table_ok [OF q(1)] q(2) True show ?thesis
      by (simp add: writeAgencies_def dir_getFileForWriting)
  next
    case False
    with r have "agencies_table srt enc w (Rejecting reason) feed = Inl (PanicString reason)"
      by simp
    with assms(1,2,5) False show ?thesis
      by (simp add: writeAgencies_def dir_getFileForWriting finish_table_def recovered_def)
  qed
  with p show ?thesis by blast
qed

section \<open>Free text\<close>

lemma strings_Replace_char:
  "strings_Replace s old [c] = map (\<lambda>x. if x = old then c else x) s"
  by (induction s) simp_all

lemma strings_Replace_newline:
  "strings_Replace s newline '' '' = newlines_to_spaces s"
  by (simp add: strings_Replace_char newlines_to_spaces_def)

text \<open>
  Claim C8, amended. The cells of agency_name, feed_publisher_name, feed_version,
  stop_name, stop_desc, route_long_name, route_short_name, route_desc, trip_headsign and
  trip_short_name go through \<^verbatim>\<open>strings.Replace\<close>: every newline of the field is replaced
  by one space and every other byte is kept, so the cell has no newline and a run of n
  newlines becomes n spaces. The other text cells are the fields as they are, newlines
  included; stop_headsign, level_name, signposted_as, reversed_signposted_as and
  organization_name are among them.
\<close>

theorem newline_becomes_space:
  "agency_row feed names a ! 1 = newlines_to_spaces (Agency_Name a) \<and>
   feedinfo_row feed names fi ! 0 = newlines_to_spaces (Publisher_name fi) \<and>
   feedinfo_row feed names fi ! 5 = newlines_to_spaces (Version fi) \<and>
   stop_row formatFloat feed names s ! 0 = newlines_to_spaces (Stop_Name s) \<and>
   stop_row formatFloat feed names s ! 5 = newlines_to_spaces (Stop_Desc s) \<and>
   route_row feed names r ! 0 = newlines_to_spaces (Route_Long_name r) \<and>
   route_row feed names r ! 1 = newlines_to_spaces (Route_Short_name r) \<and>
   route_row feed names r ! 3 = newlines_to_spaces (Route_Desc r) \<and>
   trip_row feed names t ! 2 = newlines_to_spaces (Trip_Headsign t) \<and>
   trip_row feed names t ! 3 = newlines_to_spaces (string_or_empty (Trip_Short_name t)) \<and>
   newline \<notin> set (newlines_to_spaces txt) \<and>
   length (newlines_to_spaces txt) = length txt \<and>
   newlines_to_spaces (replicate n newline) = replicate n CHR '' '' \<and>
   stopTimeLine formatFloat t st ! 5 = StopTime_Headsign st \<and>
   level_row formatFloat feed names l ! 2 = Level_Name l \<and>
   pathway_row formatFloat IsNaN is_zero feed names pw ! 10 = Pathway_Signposted_as pw \<and>
   pathway_row formatFloat IsNaN is_zero feed names pw ! 11 = Pathway_Reversed_signposted_as pw \<and>
   attribution_row feed names at ! 4 = Attribution_Organization_name at \<and>
   entattr_row feed names ea ! 4 = Attribution_Organization_name (EntAttr_attr ea)"
proof -
  have a: "newline \<notin> set (newlines_to_spaces txt)"
    by (auto simp: newlines_to_spaces_def newline_def)
  have b: "newlines_to_spaces (replicate n newline) = replicate n CHR '' ''"
    by (simp add: newlines_to_spaces_def)
  have c: "trip_row feed names t ! 2 = newlines_to_spaces (Trip_Headsign t)"
    "trip_row feed names t ! 3 = newlines_to_spaces (string_or_empty (Trip_Short_name t))"
    by (simp_all add: trip_row_def Let_def strings_Replace_newline split: option.splits)
  have d: "stopTimeLine formatFloat t st ! 5 = StopTime_Headsign st"
    by (simp add: stopTimeLine_def Let_def split: prod.splits)
  show ?thesis
    using a b c d
    by (simp add: agency_row_def feedinfo_row_def stop_row_def route_row_def level_row_def
        pathway_row_def attribution_row_def entattr_row_def Let_def strings_Replace_newline)
       (simp add: newlines_to_spaces_def)
qed

text \<open>Two newlines in a row give two spaces, where collapsing the run gives one; and the
  newline of an organization name is written as it is.\<close>

theorem newline_run_counterexample:
  "agency_row empty_feed [] two_newlines ! 1 = ''A  B'' \<and>
   spec_collapse_newlines (Agency_Name two_newlines) = ''A B'' \<and>
   attribution_row empty_feed [] two_line_organization ! 4 = [CHR ''A'', newline, CHR ''B''] \<and>
   newline \<in> set (attribution_row empty_feed [] two_line_organization ! 4)"
  by (simp add: agency_row_def two_newlines_def Let_def newline_def spec_collapse_newlines_def
      attribution_row_def two_line_organization_def)

section \<open>The statements at sample inputs\<close>

lemma sample_table_fields:
  "lines sample_table = []" "order sample_table = []"
  "headers sample_table = [''id'', ''name'', ''phone'']"
  "headerUsage sample_table = [True, False, False]"
  by (simp_all add: sample_table_value)

lemmas eval_defs =
  buffered_path_def streaming_path_def placeholder_row_def WriteCsvLine_def HeaderUsage_def
  Flush_def WriteHeader_def WriteCsvLineRaw_def maskLine_def FlushFile_def csv_Write_def
  csv_Flush_def SetOrder_def SetOrder_step_def Let_def

lemma one_name_records:
  assumes "n \<noteq> []"
  shows "\<exists>p. agencies_table srt enc plain_Writer Accepting
              (empty_feed\<lparr>Agencies := [two_newlines\<lparr>Agency_Name := n\<rparr>]\<rparr>) = Inr p \<and>
       flushed (writer p) =
         [[''agency_id'', ''agency_name'', ''agency_url'', ''agency_timezone''],
          [''1'', newlines_to_spaces n, ''http://a.example'', ''Europe/Berlin'']]"
  using assms
  by (simp add: agencies_table_def empty_feed_def plain_Writer_def
      agency_header_def agency_row_def two_newlines_def addFlds_def string_or_empty_def
      SetHeader_usage strings_Replace_newline newlines_to_spaces_def
      WriteCsvLine_def HeaderUsage_def Flush_def WriteHeader_def WriteCsvLineRaw_def
      maskLine_def FlushFile_def csv_Write_def csv_Flush_def Let_def)

theorem rejected_write_is_lost_or_escapes_witness:
  "writeAgencies short_sort unquoted_record plain_Writer full_disk one_agency_feed =
     Inr (None, plain_Writer,
          full_disk\<lparr>entries := [(''feed_info.txt'', [[''feed_publisher_name''], [''Old'']]),
                                (''agency.txt'', []),
                                (''calendar.txt'', [[''service_id''], [''Old'']])]\<rparr>) \<and>
   writeAgencies short_sort unquoted_record plain_Writer full_disk long_name_feed =
     Inl (RuntimeError ''interface conversion: string is not error: missing method Error'')"
proof -
  have facts: "stat full_disk = Some Directory" "''agency.txt'' \<notin> set (denied full_disk)"
    "\<not> Sorted plain_Writer" "\<not> KeepColOrder plain_Writer"
    "stream full_disk = Rejecting ''no space left on device''"
    by (simp_all add: full_disk_def stale_dir_def plain_Writer_def)
  have f1: "one_agency_feed =
      empty_feed\<lparr>Agencies := [two_newlines\<lparr>Agency_Name := Agency_Name two_newlines\<rparr>]\<rparr>"
    by (simp add: one_agency_feed_def)
  have f2: "long_name_feed =
      empty_feed\<lparr>Agencies := [two_newlines\<lparr>Agency_Name := replicate 5000 CHR ''A''\<rparr>]\<rparr>"
    by (simp add: long_name_feed_def)
  have n1: "Agency_Name two_newlines \<noteq> []" by (simp add: two_newlines_def)
  have n2: "replicate 5000 CHR ''A'' \<noteq> []" by simp
  have e: "AList.update ''agency.txt'' [] (entries full_disk) =
      [(''feed_info.txt'', [[''feed_publisher_name''], [''Old'']]), (''agency.txt'', []),
       (''calendar.txt'', [[''service_id''], [''Old'']])]"
    by (simp add: full_disk_def stale_dir_def)
  from rejected_write_is_lost_or_escapes [OF facts, of short_sort unquoted_record one_agency_feed]
  obtain p where p: "agencies_table short_sort unquoted_record plain_Writer Accepting
      one_agency_feed = Inr p"
    and r: "writeAgencies short_sort unquoted_record plain_Writer full_disk one_agency_feed =
      (if length (csv_bytes unquoted_record (flushed (writer p))) \<le> 4096
       then Inr (None, plain_Writer,
                 full_disk\<lparr>entries := AList.update ''agency.txt'' [] (entries full_disk)\<rparr>)
       else Inl (RuntimeError
                   ''interface conversion: string is not error: missing method Error''))"
    by blast
  from one_name_records [OF n1, of short_sort unquoted_record] p
  have "flushed (writer p) =
      [[''agency_id'', ''agency_name'', ''agency_url'', ''agency_timezone''],
       [''1'', newlines_to_spaces (Agency_Name two_newlines), ''http://a.example'',
        ''Europe/Berlin'']]"
    unfolding f1 by auto
  then have "length (csv_bytes unquoted_record (flushed (writer p))) \<le> 4096"
    by (simp add: csv_bytes_def unquoted_record_def newlines_to_spaces_def two_newlines_def)
  with r e have small: "writeAgencies short_sort unquoted_record plain_Writer full_disk
      one_agency_feed =
      Inr (None, plain_Writer,
           full_disk\<lparr>entries := [(''feed_info.txt'', [[''feed_publisher_name''], [''Old'']]),
                                 (''agency.txt'', []),
                                 (''calendar.txt'', [[''service_id''], [''Old'']])]\<rparr>)"
    by simp
  from rejected_write_is_lost_or_escapes [OF facts, of short_sort unquoted_record long_name_feed]
  obtain q where q: "agencies_table short_sort unquoted_record plain_Writer Accepting
      long_name_feed = Inr q"
    and s: "writeAgencies short_sort unquoted_record plain_Writer full_disk long_name_feed =
      (if length (csv_bytes unquoted_record (flushed (writer q))) \<le> 4096
       then Inr (None, plain_Writer,
                 full_disk\<lparr>entries := AList.update ''agency.txt'' [] (entries full_disk)\<rparr>)
       else Inl (RuntimeError
                   ''interface conversion: string is not error: missing method Error''))"
    by blast
  from one_name_records [OF n2, of short_sort unquoted_record] q
  have "flushed (writer q) =
      [[''agency_id'', ''agency_name'', ''agency_url'', ''agency_timezone''],
       [''1'', newlines_to_spaces (replicate 5000 CHR ''A''), ''http://a.example'',
        ''Europe/Berlin'']]"
    unfolding f2 by auto
  then have "\<not> length (csv_bytes unquoted_record (flushed (writer q))) \<le> 4096"
    by (simp add: csv_bytes_def unquoted_record_def newlines_to_spaces_def)
  with s have "writeAgencies short_sort unquoted_record plain_Writer full_disk long_name_feed =
      Inl (RuntimeError ''interface conversion: string is not error: missing method Error'')"
    by simp
  with small show ?thesis by simp
qed

lemma sample_stop_times_header:
  "arranged stop_times_header [''stop_id'', ''trip_id'']
     (\<lambda>k. stop_times_header ! k \<in>
            set [''trip_id'', ''arrival_time'', ''departure_time'', ''stop_id'', ''stop_sequence''])
     stop_times_header =
   [''stop_id'', ''trip_id'', ''arrival_time'', ''departure_time'', ''stop_sequence'']"
  by code_simp







text \<open>A column named in the order is written although its usage is false.\<close>

theorem named_columns_counterexample:
  "\<exists>p. buffered_path (SetOrder sample_table [''phone'', ''id'']) [[''7'', ''Bus'', '''']] = Inr p \<and>
       headerUsage p = [True, True, False] \<and>
       flushed (writer p) = [[''phone'', ''id'', ''name''], ['''', ''7'', ''Bus'']]"
  by (simp add: sample_table_value eval_defs)

lemma upt_4: "[0..<4] = [0, 1, 2, 3]"
  by (simp add: upt_rec)

theorem named_columns_first_witness:
  "maskLine ((SetOrder (SetHeader (NewCsvWriter unquoted_record Accepting)
                [''id'', ''name'', ''phone'', ''fax''] [''id'']) [''phone'', ''email'', ''id''])
              \<lparr>headerUsage := [True, False, True, True], lines := [],
                writer := csv_NewWriter unquoted_record Accepting\<rparr>)
     [''id'', ''name'', ''phone'', ''fax''] = Inr [''phone'', ''id'', ''fax''] \<and>
   maskLine ((SetOrder (SetHeader (NewCsvWriter unquoted_record Accepting)
                [''id'', ''name'', ''phone'', ''fax''] [''id'']) [''phone'', ''email'', ''id''])
              \<lparr>headerUsage := [True, False, True, True], lines := [],
                writer := csv_NewWriter unquoted_record Accepting\<rparr>)
     [''7'', [], ''555'', ''556''] = Inr [''555'', ''7'', ''556'']"
proof -
  have dh: "distinct [''id'', ''name'', ''phone'', ''fax'']" by simp
  have d: "distinct [''phone'', ''email'', ''id'']" by simp
  have l: "length [True, False, True, True] = length [''id'', ''name'', ''phone'', ''fax'']"
    by simp
  have l1: "length [''id'', ''name'', ''phone'', ''fax''] = length [''id'', ''name'', ''phone'', ''fax'']"
    by simp
  have l2: "length [''7'', [], ''555'', ''556''] = length [''id'', ''name'', ''phone'', ''fax'']"
    by simp
  from named_columns_first [OF dh d l1 l] named_columns_first [OF dh d l2 l]
  show ?thesis by (simp add: upt_4)
qed

end
